theory Spec2Isabelle
  imports Complex_Main "HOL-Library.AList" "HOL-Library.Multiset"
begin

section \<open>Progress tracker (src/presentation/progress/ProgressTracker.js)\<close>

text \<open>
  Counters are JavaScript numbers that only ever hold non-negative integers; they are
  modelled as \<open>nat\<close>. Clock readings (\<open>Date.now()\<close>, milliseconds) are \<open>int\<close>. The derived
  metrics are doubles in the source and exact rationals here; they are computed from the
  counters and never written back into them. Every call carries the clock reading and the
  heap size (\<open>process.memoryUsage().heapUsed\<close>) it observes.
\<close>

record Statistics =
  successRate :: rat
  errorRate :: rat
  throughput :: rat
  duration :: int
  memoryUsage :: rat

text \<open>The object spread \<open>{ ...this.statistics, ...event.statistics }\<close>: a field present in
  the event's object replaces the stored one.\<close>

record StatisticsPatch =
  p_successRate :: "rat option"
  p_errorRate :: "rat option"
  p_throughput :: "rat option"
  p_duration :: "int option"
  p_memoryUsage :: "rat option"

record ProgressState =
  sessionId :: "string option"
  currentPhase :: string
  status :: string
  startTime :: "int option"
  endTime :: "int option"
  totalRecords :: nat
  processedRecords :: nat
  successfulRecords :: nat
  failedRecords :: nat
  totalBatches :: nat
  currentBatch :: nat
  currentBatchSize :: nat
  currentBatchProcessed :: nat
  recordsPerSecond :: rat
  estimatedTimeRemaining :: rat
  averageBatchTime :: rat
  errors :: "(int \<times> string \<times> string) list"
  warnings :: "(int \<times> string \<times> string) list"
  lastError :: "string option"
  lastWarning :: "string option"
  milestones :: "(int \<times> string \<times> string) list"
  lastMilestone :: "string option"
  statistics :: Statistics

datatype ProgressEvent =
    PHASE_CHANGE string
  | BATCH_START nat nat
  | BATCH_PROGRESS nat
  | BATCH_COMPLETE rat
  | RECORD_PROCESSED bool
  | ERROR_OCCURRED string string
  | WARNING_OCCURRED string string
  | MILESTONE_REACHED string string
  | SESSION_COMPLETE bool
  | STATISTICS_UPDATE "StatisticsPatch option"
  | UNKNOWN_EVENT string

definition new_ProgressState :: ProgressState where
  "new_ProgressState =
     \<lparr> sessionId = None, currentPhase = ''initialization'', status = ''idle'',
       startTime = None, endTime = None,
       totalRecords = 0, processedRecords = 0, successfulRecords = 0, failedRecords = 0,
       totalBatches = 0, currentBatch = 0, currentBatchSize = 0, currentBatchProcessed = 0,
       recordsPerSecond = 0, estimatedTimeRemaining = 0, averageBatchTime = 0,
       errors = [], warnings = [], lastError = None, lastWarning = None,
       milestones = [], lastMilestone = None,
       statistics = \<lparr> successRate = 0, errorRate = 0, throughput = 0, duration = 0,
                      memoryUsage = 0 \<rparr> \<rparr>"

definition updatePerformanceMetrics :: "int \<Rightarrow> ProgressState \<Rightarrow> ProgressState" where
  "updatePerformanceMetrics now s =
     (case startTime s of
        None \<Rightarrow> s
      | Some t0 \<Rightarrow>
          let seconds = of_int (now - t0) / (1000 :: rat) in
          if seconds > 0 then
            let s1 = s\<lparr>recordsPerSecond := of_nat (processedRecords s) / seconds\<rparr> in
            if recordsPerSecond s1 > 0 \<and> totalRecords s1 > 0 then
              s1\<lparr>estimatedTimeRemaining :=
                    (of_nat (totalRecords s1) - of_nat (processedRecords s1))
                      / recordsPerSecond s1\<rparr>
            else s1
          else s)"

definition updateAverageBatchTime :: "rat \<Rightarrow> ProgressState \<Rightarrow> ProgressState" where
  "updateAverageBatchTime d s =
     (if averageBatchTime s = 0 then s\<lparr>averageBatchTime := d\<rparr>
      else s\<lparr>averageBatchTime := averageBatchTime s * (8 / 10) + d * (2 / 10)\<rparr>)"

definition updateCommonMetrics :: "int \<Rightarrow> nat \<Rightarrow> ProgressState \<Rightarrow> ProgressState" where
  "updateCommonMetrics now heapUsed s =
     (let st0 = statistics s;
          st1 = (if processedRecords s > 0 then
                   st0\<lparr>successRate :=
                          of_nat (successfulRecords s) / of_nat (processedRecords s) * 100,
                       errorRate :=
                          of_nat (failedRecords s) / of_nat (processedRecords s) * 100\<rparr>
                 else st0);
          st2 = st1\<lparr>throughput := recordsPerSecond s\<rparr>;
          st3 = (case startTime s of
                   None \<Rightarrow> st2
                 | Some t0 \<Rightarrow> st2\<lparr>duration := now - t0\<rparr>);
          st4 = st3\<lparr>memoryUsage := of_nat heapUsed / 1024 / 1024\<rparr>
      in s\<lparr>statistics := st4\<rparr>)"

definition mergeStatistics :: "Statistics \<Rightarrow> StatisticsPatch \<Rightarrow> Statistics" where
  "mergeStatistics st p =
     \<lparr> successRate = (case p_successRate p of None \<Rightarrow> successRate st | Some v \<Rightarrow> v),
       errorRate = (case p_errorRate p of None \<Rightarrow> errorRate st | Some v \<Rightarrow> v),
       throughput = (case p_throughput p of None \<Rightarrow> throughput st | Some v \<Rightarrow> v),
       duration = (case p_duration p of None \<Rightarrow> duration st | Some v \<Rightarrow> v),
       memoryUsage = (case p_memoryUsage p of None \<Rightarrow> memoryUsage st | Some v \<Rightarrow> v) \<rparr>"

text \<open>The \<open>switch\<close> of \<open>ProgressState.update\<close>, one equation per \<open>case\<close>; an event type that
  matches no \<open>case\<close> leaves the state to \<open>updateCommonMetrics\<close> alone.\<close>

fun update_switch :: "int \<Rightarrow> ProgressEvent \<Rightarrow> ProgressState \<Rightarrow> ProgressState" where
  "update_switch now (PHASE_CHANGE phase) s = s\<lparr>currentPhase := phase\<rparr>"
| "update_switch now (BATCH_START batchNumber batchSize) s =
     s\<lparr>currentBatch := batchNumber, currentBatchSize := batchSize,
       currentBatchProcessed := 0\<rparr>"
| "update_switch now (BATCH_PROGRESS processed) s = s\<lparr>currentBatchProcessed := processed\<rparr>"
| "update_switch now (BATCH_COMPLETE d) s =
     (let s1 = s\<lparr>currentBatchProcessed := currentBatchSize s\<rparr>
      in if d \<noteq> 0 then updateAverageBatchTime d s1 else s1)"
| "update_switch now (RECORD_PROCESSED success) s =
     (let s1 = s\<lparr>processedRecords := processedRecords s + 1\<rparr>;
          s2 = (if success then s1\<lparr>successfulRecords := successfulRecords s1 + 1\<rparr>
                else s1\<lparr>failedRecords := failedRecords s1 + 1\<rparr>)
      in updatePerformanceMetrics now s2)"
| "update_switch now (ERROR_OCCURRED err ctx) s =
     s\<lparr>errors := errors s @ [(now, err, ctx)], lastError := Some err\<rparr>"
| "update_switch now (WARNING_OCCURRED w ctx) s =
     s\<lparr>warnings := warnings s @ [(now, w, ctx)], lastWarning := Some w\<rparr>"
| "update_switch now (MILESTONE_REACHED m d) s =
     s\<lparr>milestones := milestones s @ [(now, m, d)], lastMilestone := Some m\<rparr>"
| "update_switch now (SESSION_COMPLETE success) s =
     s\<lparr>status := (if success then ''completed'' else ''failed''), endTime := Some now\<rparr>"
| "update_switch now (STATISTICS_UPDATE None) s = s"
| "update_switch now (STATISTICS_UPDATE (Some p)) s =
     s\<lparr>statistics := mergeStatistics (statistics s) p\<rparr>"
| "update_switch now (UNKNOWN_EVENT ty) s = s"

definition update :: "int \<Rightarrow> nat \<Rightarrow> ProgressEvent \<Rightarrow> ProgressState \<Rightarrow> ProgressState" where
  "update now heapUsed event s = updateCommonMetrics now heapUsed (update_switch now event s)"

text \<open>
  \<open>ProgressTracker\<close>: the state, the throttle of observer notifications, and the events
  handed to the observers (the observers themselves are outside the tracker; a failing
  observer is caught inside \<open>notifyObservers\<close> and changes nothing here).
\<close>

record ProgressTracker =
  state :: ProgressState
  updateFrequency :: int
  lastUpdateTime :: int
  notified :: "ProgressEvent list"
  periodicUpdates :: bool

definition new_ProgressTracker :: "string \<Rightarrow> ProgressTracker" where
  "new_ProgressTracker sid =
     \<lparr> state = new_ProgressState\<lparr>sessionId := Some sid\<rparr>,
       updateFrequency = 100, lastUpdateTime = 0, notified = [], periodicUpdates = False \<rparr>"

fun alwaysNotified :: "ProgressEvent \<Rightarrow> bool" where
  "alwaysNotified (SESSION_COMPLETE _) = True"
| "alwaysNotified (PHASE_CHANGE _) = True"
| "alwaysNotified (MILESTONE_REACHED _ _) = True"
| "alwaysNotified (ERROR_OCCURRED _ _) = True"
| "alwaysNotified _ = False"

definition updateProgress :: "int \<Rightarrow> nat \<Rightarrow> ProgressEvent \<Rightarrow> ProgressTracker \<Rightarrow> ProgressTracker" where
  "updateProgress now heapUsed event t =
     (let t1 = t\<lparr>state := update now heapUsed event (state t)\<rparr>
      in if now - lastUpdateTime t1 < updateFrequency t1 \<and> \<not> alwaysNotified event then t1
         else t1\<lparr>lastUpdateTime := now, notified := notified t1 @ [event]\<rparr>)"

datatype TrackerCall =
    StartSession nat nat "string option" bool
  | UpdateProgress ProgressEvent
  | PhaseChange string
  | BatchStart nat nat
  | BatchProgress nat nat
  | BatchComplete nat rat
  | RecordProcessed bool
  | ErrorOccurred string string
  | WarningOccurred string string
  | MilestoneReached string string
  | SessionComplete bool
  | Pause
  | Resume
  | PeriodicTick
  | Shutdown

text \<open>One public method of the tracker (or one firing of its one-second timer) at clock
  reading \<open>now\<close>. \<open>StartSession nrecords nbatches phase periodic\<close> carries the fields of the
  configuration object that \<open>startSession\<close> reads.\<close>

fun tracker_call :: "int \<Rightarrow> nat \<Rightarrow> TrackerCall \<Rightarrow> ProgressTracker \<Rightarrow> ProgressTracker" where
  "tracker_call now h (StartSession nrecords nbatches phase periodic) t =
     (let t1 = t\<lparr>state := (state t)\<lparr>startTime := Some now, status := ''active'',
                                   totalRecords := nrecords, totalBatches := nbatches\<rparr>\<rparr>;
          t2 = updateProgress now h
                 (PHASE_CHANGE (case phase of None \<Rightarrow> ''initialization'' | Some p \<Rightarrow>
                                  if p = [] then ''initialization'' else p)) t1
      in if periodic then t2\<lparr>periodicUpdates := True\<rparr> else t2)"
| "tracker_call now h (UpdateProgress ev) t = updateProgress now h ev t"
| "tracker_call now h (PhaseChange p) t = updateProgress now h (PHASE_CHANGE p) t"
| "tracker_call now h (BatchStart n sz) t = updateProgress now h (BATCH_START n sz) t"
| "tracker_call now h (BatchProgress n processed) t =
     updateProgress now h (BATCH_PROGRESS processed) t"
| "tracker_call now h (BatchComplete n d) t = updateProgress now h (BATCH_COMPLETE d) t"
| "tracker_call now h (RecordProcessed success) t =
     updateProgress now h (RECORD_PROCESSED success) t"
| "tracker_call now h (ErrorOccurred e c) t = updateProgress now h (ERROR_OCCURRED e c) t"
| "tracker_call now h (WarningOccurred w c) t = updateProgress now h (WARNING_OCCURRED w c) t"
| "tracker_call now h (MilestoneReached m d) t =
     updateProgress now h (MILESTONE_REACHED m d) t"
| "tracker_call now h (SessionComplete success) t =
     (let t1 = t\<lparr>state := (state t)\<lparr>status := (if success then ''completed'' else ''failed''),
                                   endTime := Some now\<rparr>\<rparr>
      in (updateProgress now h (SESSION_COMPLETE success) t1)\<lparr>periodicUpdates := False\<rparr>)"
| "tracker_call now h Pause t =
     t\<lparr>state := (state t)\<lparr>status := ''paused''\<rparr>, periodicUpdates := False\<rparr>"
| "tracker_call now h Resume t =
     t\<lparr>state := (state t)\<lparr>status := ''active''\<rparr>, periodicUpdates := True\<rparr>"
| "tracker_call now h PeriodicTick t =
     (if periodicUpdates t \<and> status (state t) = ''active'' then
        updateProgress now h
          (STATISTICS_UPDATE
             (Some \<lparr> p_successRate = Some (successRate (statistics (state t))),
                     p_errorRate = Some (errorRate (statistics (state t))),
                     p_throughput = Some (throughput (statistics (state t))),
                     p_duration = Some (duration (statistics (state t))),
                     p_memoryUsage = Some (memoryUsage (statistics (state t))) \<rparr>)) t
      else t)"
| "tracker_call now h Shutdown t =
     t\<lparr>state := (state t)\<lparr>status := ''shutdown''\<rparr>, periodicUpdates := False\<rparr>"

text \<open>A session: calls in order, each with the clock reading and heap size it sees.\<close>

fun run_tracker :: "(int \<times> nat \<times> TrackerCall) list \<Rightarrow> ProgressTracker \<Rightarrow> ProgressTracker" where
  "run_tracker [] t = t"
| "run_tracker ((now, h, c) # cs) t = run_tracker cs (tracker_call now h c t)"

text \<open>The same for events applied to a bare \<open>ProgressState\<close>.\<close>

fun run_updates :: "(int \<times> nat \<times> ProgressEvent) list \<Rightarrow> ProgressState \<Rightarrow> ProgressState" where
  "run_updates [] s = s"
| "run_updates ((now, h, e) # es) s = run_updates es (update now h e s)"

section \<open>JavaScript values\<close>

text \<open>A JavaScript number as far as the code below needs it: an integer or \<open>NaN\<close>.\<close>

datatype jsnumber = Number int | NaN

text \<open>
  The values a dynamically typed field can hold, as far as the code below tells them
  apart: by truthiness, by being a string, and by the number they convert to. \<open>JObject n\<close>
  stands for any object, array or function (truthy, and without the string methods)
  together with the number \<open>n\<close> that \<open>ToNumber\<close> gives for it: \<open>NaN\<close> for a plain object or
  a function, the number of its joined elements for an array (30 for \<open>['30']\<close>, 0 for
  \<open>[]\<close>), the result of \<open>valueOf\<close> where the object has its own. Strings are sequences of
  code units below 256 (Latin-1).
\<close>

datatype jsval = JUndefined | JNull | JBool bool | JNum int | JStr string | JObject jsnumber

fun truthy :: "jsval \<Rightarrow> bool" where
  "truthy JUndefined = False"
| "truthy JNull = False"
| "truthy (JBool b) = b"
| "truthy (JNum n) = (n \<noteq> 0)"
| "truthy (JStr s) = (s \<noteq> [])"
| "truthy (JObject n) = True"

datatype js_error = TypeError string | Error string

fun message :: "js_error \<Rightarrow> string" where
  "message (TypeError m) = m"
| "message (Error m) = m"

text \<open>\<open>String.prototype.toLowerCase\<close> on Latin-1: A-Z and the accented capitals
  U+00C0..U+00DE (without the multiplication sign U+00D7) move up by 32.\<close>

definition lower_char :: "char \<Rightarrow> char" where
  "lower_char c =
     (let n = (of_char c :: nat)
      in if (65 \<le> n \<and> n \<le> 90) \<or> (192 \<le> n \<and> n \<le> 222 \<and> n \<noteq> 215)
         then char_of (n + 32) else c)"

definition toLowerCase :: "string \<Rightarrow> string" where
  "toLowerCase s = map lower_char s"

text \<open>\<open>String.prototype.trim\<close> strips white space and line terminators from both ends:
  TAB, LF, VT, FF, CR, SPACE and NBSP among the code units below 256.\<close>

definition is_space :: "char \<Rightarrow> bool" where
  "is_space c = (of_char c \<in> {9, 10, 11, 12, 13, 32, 160 :: nat})"

definition trim :: "string \<Rightarrow> string" where
  "trim s = rev (dropWhile is_space (rev (dropWhile is_space s)))"

section \<open>Deduplication (DeduplicationService in src/domain/services/ValidationService.js)\<close>

text \<open>\<open>Subscriber\<close> (src/domain/entities/Subscriber.js): the constructor copies the raw
  fields without checking their type, so each field is a \<open>jsval\<close>.\<close>

record Subscriber =
  email :: jsval
  firstName :: jsval
  lastName :: jsval
  phoneNumber :: jsval
  createdAt :: int

text \<open>What a caller can hand to the service: a \<open>Subscriber\<close> instance or anything else.\<close>

datatype dedup_input = Instance Subscriber | NotSubscriber jsval

datatype DeduplicationStrategy =
  EmailDeduplicationStrategy | EmailPhoneDeduplicationStrategy | StrictDeduplicationStrategy

text \<open>\<open>v ? v.toLowerCase().trim() : ''\<close> and \<open>v ? v.trim() : ''\<close>: a truthy value that is
  not a string has neither method, and the call raises a \<open>TypeError\<close>.\<close>

fun lower_trim_or_empty :: "string \<Rightarrow> jsval \<Rightarrow> js_error + string" where
  "lower_trim_or_empty field (JStr s) = Inr (if s \<noteq> [] then trim (toLowerCase s) else [])"
| "lower_trim_or_empty field v =
     (if truthy v then Inl (TypeError (''subscriber.'' @ field @ ''.toLowerCase is not a function''))
      else Inr [])"

fun trim_or_empty :: "string \<Rightarrow> jsval \<Rightarrow> js_error + string" where
  "trim_or_empty field (JStr s) = Inr (if s \<noteq> [] then trim s else [])"
| "trim_or_empty field v =
     (if truthy v then Inl (TypeError (''subscriber.'' @ field @ ''.trim is not a function''))
      else Inr [])"

fun generateKey :: "DeduplicationStrategy \<Rightarrow> Subscriber \<Rightarrow> js_error + string" where
  "generateKey EmailDeduplicationStrategy sub = lower_trim_or_empty ''email'' (email sub)"
| "generateKey EmailPhoneDeduplicationStrategy sub =
     (case lower_trim_or_empty ''email'' (email sub) of
        Inl e \<Rightarrow> Inl e
      | Inr em \<Rightarrow>
          (case trim_or_empty ''phoneNumber'' (phoneNumber sub) of
             Inl e \<Rightarrow> Inl e
           | Inr ph \<Rightarrow> Inr (em @ ''|'' @ ph)))"
| "generateKey StrictDeduplicationStrategy sub =
     (case lower_trim_or_empty ''email'' (email sub) of
        Inl e \<Rightarrow> Inl e
      | Inr em \<Rightarrow>
          (case trim_or_empty ''phoneNumber'' (phoneNumber sub) of
             Inl e \<Rightarrow> Inl e
           | Inr ph \<Rightarrow>
               (case lower_trim_or_empty ''firstName'' (firstName sub) of
                  Inl e \<Rightarrow> Inl e
                | Inr fname \<Rightarrow>
                    (case lower_trim_or_empty ''lastName'' (lastName sub) of
                       Inl e \<Rightarrow> Inl e
                     | Inr lname \<Rightarrow> Inr (em @ ''|'' @ ph @ ''|'' @ fname @ ''|'' @ lname)))))"

record DuplicateResult =
  isDuplicate :: bool
  originalRecord :: "Subscriber option"
  duplicateCount :: nat
  timestamp :: int

definition new_DuplicateResult :: "int \<Rightarrow> bool \<Rightarrow> Subscriber option \<Rightarrow> nat \<Rightarrow> DuplicateResult" where
  "new_DuplicateResult now dup orig cnt =
     \<lparr> isDuplicate = dup, originalRecord = orig, duplicateCount = cnt, timestamp = now \<rparr>"

record SeenRecord =
  subscriber :: Subscriber
  count :: nat
  firstSeen :: int
  key :: string

record DuplicateEntry =
  dup_subscriber :: Subscriber
  dup_timestamp :: int
  duplicateNumber :: nat

record DedupStatistics =
  stat_totalRecords :: nat
  stat_uniqueRecords :: nat
  stat_duplicateRecords :: nat
  stat_duplicateGroups :: nat

text \<open>The two \<open>Map\<close>s are association lists in insertion order; \<open>AList.update\<close> replaces
  the value of a key in place and appends a new key at the end, as \<open>Map.set\<close> does.\<close>

record DeduplicationService =
  strategy :: DeduplicationStrategy
  seenRecords :: "(string \<times> SeenRecord) list"
  duplicateGroups :: "(string \<times> DuplicateEntry list) list"
  dedup_statistics :: DedupStatistics

definition zero_statistics :: DedupStatistics where
  "zero_statistics =
     \<lparr> stat_totalRecords = 0, stat_uniqueRecords = 0, stat_duplicateRecords = 0,
       stat_duplicateGroups = 0 \<rparr>"

definition new_DeduplicationService :: "DeduplicationStrategy option \<Rightarrow> DeduplicationService" where
  "new_DeduplicationService strat =
     \<lparr> strategy = (case strat of None \<Rightarrow> EmailDeduplicationStrategy | Some st \<Rightarrow> st),
       seenRecords = [], duplicateGroups = [], dedup_statistics = zero_statistics \<rparr>"

definition reset :: "DeduplicationService \<Rightarrow> DeduplicationService" where
  "reset svc = svc\<lparr>seenRecords := [], duplicateGroups := [], dedup_statistics := zero_statistics\<rparr>"

definition blank :: "string \<Rightarrow> bool" where
  "blank k = (k = [] \<or> trim k = [])"

text \<open>\<open>checkDuplicate\<close> at clock reading \<open>now\<close>. A \<open>throw\<close> is \<open>Inl\<close>; the service
  is returned as the call leaves it, also when it throws.\<close>

fun checkDuplicate ::
  "int \<Rightarrow> dedup_input \<Rightarrow> DeduplicationService \<Rightarrow> (js_error + DuplicateResult) \<times> DeduplicationService"
where
  "checkDuplicate now (NotSubscriber v) svc =
     (Inl (Error ''Data must be a Subscriber instance''), svc)"
| "checkDuplicate now (Instance sub) svc =
     (let st1 = (dedup_statistics svc)\<lparr>stat_totalRecords :=
                    stat_totalRecords (dedup_statistics svc) + 1\<rparr>;
          svc1 = svc\<lparr>dedup_statistics := st1\<rparr>
      in case generateKey (strategy svc1) sub of
           Inl e \<Rightarrow> (Inl e, svc1)
         | Inr k \<Rightarrow>
             if blank k then
               (Inr (new_DuplicateResult now False None 0),
                svc1\<lparr>dedup_statistics := st1\<lparr>stat_uniqueRecords := stat_uniqueRecords st1 + 1\<rparr>\<rparr>)
             else
               (case map_of (seenRecords svc1) k of
                  Some existingRecord \<Rightarrow>
                    let existing' = existingRecord\<lparr>count := count existingRecord + 1\<rparr>;
                        groups0 = (if map_of (duplicateGroups svc1) k = None
                                   then AList.update k [] (duplicateGroups svc1)
                                   else duplicateGroups svc1);
                        grp = (case map_of groups0 k of None \<Rightarrow> [] | Some g \<Rightarrow> g);
                        entry = \<lparr> dup_subscriber = sub, dup_timestamp = now,
                                  duplicateNumber = count existing' \<rparr>
                    in (Inr (new_DuplicateResult now True (Some (subscriber existing'))
                               (count existing')),
                        svc1\<lparr>seenRecords := AList.update k existing' (seenRecords svc1),
                             duplicateGroups := AList.update k (grp @ [entry]) groups0,
                             dedup_statistics :=
                               st1\<lparr>stat_duplicateRecords := stat_duplicateRecords st1 + 1\<rparr>\<rparr>)
                | None \<Rightarrow>
                    (Inr (new_DuplicateResult now False None 0),
                     svc1\<lparr>seenRecords :=
                            AList.update k \<lparr> subscriber = sub, count = 1, firstSeen = now, key = k \<rparr>
                              (seenRecords svc1),
                          dedup_statistics :=
                            st1\<lparr>stat_uniqueRecords := stat_uniqueRecords st1 + 1\<rparr>\<rparr>)))"

declare checkDuplicate.simps [simp del]

record BatchResults =
  unique :: "Subscriber list"
  duplicates :: "(Subscriber \<times> DuplicateResult) list"
  batch_errors :: "(dedup_input \<times> string) list"

text \<open>The \<open>for ... of\<close> loop of \<open>processBatch\<close> with its \<open>try/catch\<close>; \<open>clock i\<close> is the
  clock reading while the \<open>i\<close>-th element is handled.\<close>

fun processBatch_loop ::
  "(nat \<Rightarrow> int) \<Rightarrow> nat \<Rightarrow> dedup_input list \<Rightarrow> BatchResults \<Rightarrow> DeduplicationService
     \<Rightarrow> BatchResults \<times> DeduplicationService"
where
  "processBatch_loop clock i [] results svc = (results, svc)"
| "processBatch_loop clock i (x # xs) results svc =
     (case checkDuplicate (clock i) x svc of
        (Inl err, svc') \<Rightarrow>
          processBatch_loop clock (Suc i) xs
            (results\<lparr>batch_errors := batch_errors results @ [(x, message err)]\<rparr>) svc'
      | (Inr duplicateResult, svc') \<Rightarrow>
          (case x of
             Instance sub \<Rightarrow>
               if isDuplicate duplicateResult then
                 processBatch_loop clock (Suc i) xs
                   (results\<lparr>duplicates := duplicates results @ [(sub, duplicateResult)]\<rparr>) svc'
               else
                 processBatch_loop clock (Suc i) xs
                   (results\<lparr>unique := unique results @ [sub]\<rparr>) svc'
           | NotSubscriber v \<Rightarrow>
               processBatch_loop clock (Suc i) xs results svc'))"

definition processBatch ::
  "(nat \<Rightarrow> int) \<Rightarrow> dedup_input list \<Rightarrow> DeduplicationService \<Rightarrow> BatchResults \<times> DeduplicationService"
where
  "processBatch clock subscribers svc =
     (let (results, svc') =
            processBatch_loop clock 0 subscribers
              \<lparr> unique = [], duplicates = [], batch_errors = [] \<rparr> svc
      in (results,
          svc'\<lparr>dedup_statistics :=
                 (dedup_statistics svc')\<lparr>stat_duplicateGroups := length (duplicateGroups svc')\<rparr>\<rparr>))"

section \<open>Error types (custom error classes and \<open>ErrorFactory\<close>)\<close>

text \<open>
  One constructor per error class. Each carries only the fields its \<open>isRetryable\<close> and
  \<open>getRetryDelay\<close> read: the HTTP status of an \<open>ApiError\<close>, the \<open>retryAfter\<close> value of
  a \<open>RateLimitError\<close>, and for a \<open>GraphQLError\<close> its \<open>errors\<close> (\<open>None\<close> when that
  is not an array, else the \<open>extensions.code\<close> of each entry, \<open>None\<close> where absent or
  falsy). \<open>PlainError response code\<close> is an error of none of these classes, such as the
  one the HTTP library throws: the status of its \<open>response\<close> when it has one, and its
  \<open>code\<close>.
\<close>

datatype AppError =
    ConfigurationError
  | ValidationError
  | ApiError int
  | NetworkError string
  | AuthenticationError
  | RateLimitError jsval
  | ProcessingError
  | GraphQLError "string option list option"
  | TimeoutError
  | PlainError "int option" "string option"

text \<open>\<open>ToNumber\<close>, which the product \<open>this.retryAfter * 1000\<close> applies to its left
  operand. How a string converts is the language's numeric-literal grammar; it is the
  parameter \<open>ofString\<close>. An object converts to the number it carries.\<close>

fun toNumber :: "(string \<Rightarrow> jsnumber) \<Rightarrow> jsval \<Rightarrow> jsnumber" where
  "toNumber ofString JUndefined = NaN"
| "toNumber ofString JNull = Number 0"
| "toNumber ofString (JBool b) = Number (if b then 1 else 0)"
| "toNumber ofString (JNum n) = Number n"
| "toNumber ofString (JStr s) = ofString s"
| "toNumber ofString (JObject n) = n"

fun js_times :: "jsnumber \<Rightarrow> int \<Rightarrow> jsnumber" where
  "js_times (Number n) k = Number (n * k)"
| "js_times NaN k = NaN"

text \<open>The constructor of \<open>RateLimitError\<close>, \<open>constructor(retryAfter = null, ...)\<close>: the
  default replaces an argument that is \<open>undefined\<close>, and only that.\<close>

definition new_RateLimitError :: "jsval \<Rightarrow> AppError" where
  "new_RateLimitError retryAfter =
     RateLimitError (if retryAfter = JUndefined then JNull else retryAfter)"

definition retryableStatus :: "int \<Rightarrow> bool" where
  "retryableStatus st = (st \<in> set [429, 500, 502, 503, 504])"

text \<open>The method \<open>isRetryable\<close> of each class; \<open>None\<close> where the class has none.\<close>

fun isRetryable_method :: "AppError \<Rightarrow> bool option" where
  "isRetryable_method (ApiError st) = Some (retryableStatus st)"
| "isRetryable_method (NetworkError m) = Some True"
| "isRetryable_method AuthenticationError = Some False"
| "isRetryable_method (RateLimitError ra) = Some True"
| "isRetryable_method (GraphQLError None) = Some False"
| "isRetryable_method (GraphQLError (Some es)) =
     Some (list_ex (\<lambda>c. c = Some ''INTERNAL_ERROR'' \<or> c = Some ''TIMEOUT'') es)"
| "isRetryable_method TimeoutError = Some True"
| "isRetryable_method _ = None"

text \<open>The method \<open>getRetryDelay\<close> of each class, in milliseconds; \<open>None\<close> where the class
  has none.\<close>

fun getRetryDelay_method :: "(string \<Rightarrow> jsnumber) \<Rightarrow> AppError \<Rightarrow> jsnumber option" where
  "getRetryDelay_method ofString (ApiError st) =
     Some (if st = 429 then Number 5000
           else if st = 500 \<or> st = 502 \<or> st = 503 \<or> st = 504 then Number 2000
           else Number 1000)"
| "getRetryDelay_method ofString (NetworkError m) = Some (Number 2000)"
| "getRetryDelay_method ofString (RateLimitError ra) =
     Some (if truthy ra then js_times (toNumber ofString ra) 1000 else Number 5000)"
| "getRetryDelay_method ofString TimeoutError = Some (Number 3000)"
| "getRetryDelay_method ofString _ = None"

text \<open>\<open>HttpClient.isRetryableError\<close> (src/unnamed/part_003).\<close>

definition isRetryableError :: "AppError \<Rightarrow> bool" where
  "isRetryableError err =
     (case isRetryable_method err of
        Some b \<Rightarrow> b
      | None \<Rightarrow>
          (case err of
             PlainError (Some st) c \<Rightarrow> retryableStatus st
           | PlainError None (Some c) \<Rightarrow> c = ''ECONNREFUSED'' \<or> c = ''ENOTFOUND'' \<or> c = ''ETIMEDOUT''
           | _ \<Rightarrow> False))"

record HttpResponse =
  resp_status :: "int option"
  resp_statusCode :: "int option"
  resp_retry_after :: jsval

text \<open>\<open>ErrorFactory.fromHttpResponse\<close>: \<open>response.status || response.statusCode || 0\<close>
  skips an absent or zero status. \<open>resp_retry_after\<close> is the value of
  \<open>response.headers && response.headers['retry-after']\<close>, \<open>undefined\<close> where there is no
  such header.\<close>

definition fromHttpResponse :: "HttpResponse \<Rightarrow> AppError" where
  "fromHttpResponse response =
     (let st = (case resp_status response of
                  Some a \<Rightarrow> if a \<noteq> 0 then a
                            else (case resp_statusCode response of Some b \<Rightarrow> b | None \<Rightarrow> 0)
                | None \<Rightarrow> (case resp_statusCode response of Some b \<Rightarrow> b | None \<Rightarrow> 0))
      in if st = 401 \<or> st = 403 then AuthenticationError
         else if st = 429 then new_RateLimitError (resp_retry_after response)
         else ApiError st)"

text \<open>\<open>ErrorFactory.fromNetworkError\<close>, from the \<open>code\<close> and \<open>message\<close> of the original
  error.\<close>

definition fromNetworkError :: "string option \<Rightarrow> string \<Rightarrow> AppError" where
  "fromNetworkError code msg =
     (if code = Some ''ECONNREFUSED'' then NetworkError ''Connection refused''
      else if code = Some ''ENOTFOUND'' then NetworkError ''DNS resolution failed''
      else if code = Some ''ETIMEDOUT'' then TimeoutError
      else NetworkError msg)"

text \<open>\<open>HttpClient.convertError\<close>: an error with a response is an HTTP error, any other a
  network error.\<close>

definition convertError :: "HttpResponse option \<Rightarrow> string option \<Rightarrow> string \<Rightarrow> AppError" where
  "convertError response code msg =
     (case response of
        Some r \<Rightarrow> fromHttpResponse r
      | None \<Rightarrow> fromNetworkError code msg)"

section \<open>Commands and the batch executor (src/infrastructure/commands/index.js)\<close>

text \<open>
  The remote service is the environment. Its log lists the calls made so far, each with
  the payload sent and the outcome; the outcome of the next call is any function of the
  log and the payload. Durations and time stamps in results are left out; the sleep
  between two tries only lets time pass.
\<close>

type_synonym outcome = "AppError + string"
type_synonym world = "(string \<times> outcome) list"
type_synonym api = "world \<Rightarrow> string \<Rightarrow> outcome"

record Command =
  commandId :: string
  subscriberData :: string
  attempts :: nat
  maxRetries :: nat
  cmd_lastError :: "AppError option"

definition new_SubscribeUserCommand :: "string \<Rightarrow> string \<Rightarrow> Command" where
  "new_SubscribeUserCommand cid payload =
     \<lparr> commandId = cid, subscriberData = payload, attempts = 0, maxRetries = 3,
       cmd_lastError = None \<rparr>"

definition isRetryable :: "Command \<Rightarrow> bool" where
  "isRetryable cmd =
     (case cmd_lastError cmd of
        None \<Rightarrow> False
      | Some e \<Rightarrow> (case isRetryable_method e of Some b \<Rightarrow> b | None \<Rightarrow> False))"

definition canRetry :: "Command \<Rightarrow> bool" where
  "canRetry cmd = (attempts cmd < maxRetries cmd \<and> isRetryable cmd)"

definition getRetryDelay :: "(string \<Rightarrow> jsnumber) \<Rightarrow> Command \<Rightarrow> jsnumber" where
  "getRetryDelay ofString cmd =
     (case cmd_lastError cmd of
        None \<Rightarrow> Number 1000
      | Some e \<Rightarrow>
          (case getRetryDelay_method ofString e of
             Some d \<Rightarrow> d
           | None \<Rightarrow> Number (min (1000 * 2 ^ attempts cmd) 10000)))"

record CommandResult =
  success :: bool
  data :: "string option"
  error :: "AppError option"
  res_commandId :: string
  res_attempts :: nat
  res_canRetry :: "bool option"

text \<open>\<open>SubscribeUserCommand.execute\<close>: one try. It counts the try, calls the service, and
  on failure keeps the error in \<open>lastError\<close>.\<close>

definition execute :: "api \<Rightarrow> Command \<Rightarrow> world \<Rightarrow> CommandResult \<times> Command \<times> world" where
  "execute remote cmd w =
     (let cmd1 = cmd\<lparr>attempts := attempts cmd + 1\<rparr>;
          out = remote w (subscriberData cmd1);
          w' = w @ [(subscriberData cmd1, out)]
      in case out of
           Inr d \<Rightarrow>
             (\<lparr> success = True, data = Some d, error = None, res_commandId = commandId cmd1,
                res_attempts = attempts cmd1, res_canRetry = None \<rparr>, cmd1, w')
         | Inl e \<Rightarrow>
             (let cmd2 = cmd1\<lparr>cmd_lastError := Some e\<rparr>
              in (\<lparr> success = False, data = None, error = Some e,
                     res_commandId = commandId cmd2, res_attempts = attempts cmd2,
                     res_canRetry = Some (canRetry cmd2) \<rparr>, cmd2, w')))"

record BatchOptions =
  concurrency :: nat
  failFast :: bool
  retryFailedCommands :: bool

text \<open>The \<open>do ... while\<close> loop of \<open>BatchProcessCommand.executeCommandWithRetry\<close>. Every
  further try raises \<open>attempts\<close>, and the loop goes on only below \<open>maxRetries\<close>.\<close>

function executeCommandWithRetry ::
  "BatchOptions \<Rightarrow> api \<Rightarrow> Command \<Rightarrow> world \<Rightarrow> CommandResult \<times> Command \<times> world"
where
  "executeCommandWithRetry opts remote cmd w =
     (let (result, cmd', w') = execute remote cmd w
      in if \<not> success result \<and> canRetry cmd' \<and> retryFailedCommands opts
         then executeCommandWithRetry opts remote cmd' w'
         else (result, cmd', w'))"
  by pat_completeness auto
termination
  by (relation "measure (\<lambda>(opts, remote, cmd, w). maxRetries cmd - attempts cmd)")
     (auto simp: execute_def canRetry_def Let_def split: sum.splits)

declare executeCommandWithRetry.simps [simp del]

text \<open>The same loop in \<open>CommandExecutor.execute\<close>, which has no option to switch it off.\<close>

function CommandExecutor_execute :: "api \<Rightarrow> Command \<Rightarrow> world \<Rightarrow> CommandResult \<times> Command \<times> world"
where
  "CommandExecutor_execute remote cmd w =
     (let (result, cmd', w') = execute remote cmd w
      in if \<not> success result \<and> canRetry cmd'
         then CommandExecutor_execute remote cmd' w'
         else (result, cmd', w'))"
  by pat_completeness auto
termination
  by (relation "measure (\<lambda>(remote, cmd, w). maxRetries cmd - attempts cmd)")
     (auto simp: execute_def canRetry_def Let_def split: sum.splits)

declare CommandExecutor_execute.simps [simp del]

text \<open>\<open>processSequentially\<close>: the commands in order; with \<open>failFast\<close> the loop breaks
  after the first command whose final result is a failure. The commands are returned as
  the run leaves them: those behind the break are untouched.\<close>

fun processSequentially ::
  "BatchOptions \<Rightarrow> api \<Rightarrow> Command list \<Rightarrow> world \<Rightarrow> CommandResult list \<times> Command list \<times> world"
where
  "processSequentially opts remote [] w = ([], [], w)"
| "processSequentially opts remote (command # rest) w =
     (let (result, command', w1) = executeCommandWithRetry opts remote command w
      in if failFast opts \<and> \<not> success result then ([result], command' # rest, w1)
         else (let (results, rest', w2) = processSequentially opts remote rest w1
               in (result # results, command' # rest', w2)))"

text \<open>\<open>processBatch\<close> takes the sequential path exactly when \<open>concurrency\<close> is 1; the
  concurrent path is not part of this model (\<open>None\<close>).\<close>

definition BatchProcessCommand_processBatch ::
  "BatchOptions \<Rightarrow> api \<Rightarrow> Command list \<Rightarrow> world
     \<Rightarrow> (CommandResult list \<times> Command list \<times> world) option"
where
  "BatchProcessCommand_processBatch opts remote commands w =
     (if concurrency opts = 1 then Some (processSequentially opts remote commands w) else None)"

section \<open>Rate limiter (RateLimiter in src/unnamed/part_003)\<close>

text \<open>
  Token counts are doubles. A count is modelled by the rational it denotes, and every
  arithmetic operation of the source rounds its exact result with \<open>rnd\<close>, the rounding
  of double arithmetic, which is a parameter here; \<open>Math.min\<close>, \<open>Math.floor\<close> and the
  comparison are exact. The difference of two clock readings is exact as well. The rate
  and the capacity are finite numbers, and no operation overflows to an infinity. Every
  pass through the limiter reads the clock once (\<open>Date.now()\<close>, milliseconds).
\<close>

record RateLimiter =
  tokens :: rat
  maxTokens :: rat
  refillRate :: rat
  lastRefill :: int

definition new_RateLimiter :: "int \<Rightarrow> rat \<Rightarrow> rat \<Rightarrow> RateLimiter" where
  "new_RateLimiter now requestsPerSecond burstSize =
     \<lparr> tokens = burstSize, maxTokens = burstSize, refillRate = requestsPerSecond,
       lastRefill = now \<rparr>"

definition refillTokens :: "(rat \<Rightarrow> rat) \<Rightarrow> int \<Rightarrow> RateLimiter \<Rightarrow> RateLimiter" where
  "refillTokens rnd now rl =
     (let timePassed = rnd (of_int (now - lastRefill rl) / 1000);
          tokensToAdd = rnd (timePassed * refillRate rl)
      in rl\<lparr>tokens := min (maxTokens rl) (rnd (tokens rl + tokensToAdd)), lastRefill := now\<rparr>)"

text \<open>\<open>acquire\<close>, given the clock reading of each of its passes: the first at the call,
  the next after each sleep. It returns as soon as a pass finds a token; a list of passes
  that ends without one is a call that is still waiting. Passes of several callers
  interleave as whole passes, so any interleaving is a sequence of one-pass calls.\<close>

fun acquire :: "(rat \<Rightarrow> rat) \<Rightarrow> int list \<Rightarrow> RateLimiter \<Rightarrow> bool \<times> RateLimiter" where
  "acquire rnd [] rl = (False, rl)"
| "acquire rnd (now # later) rl =
     (let rl1 = refillTokens rnd now rl
      in if tokens rl1 \<ge> 1 then (True, rl1\<lparr>tokens := rnd (tokens rl1 - 1)\<rparr>)
         else acquire rnd later rl1)"

definition getAvailableTokens :: "(rat \<Rightarrow> rat) \<Rightarrow> int \<Rightarrow> RateLimiter \<Rightarrow> int \<times> RateLimiter" where
  "getAvailableTokens rnd now rl = (let rl1 = refillTokens rnd now rl in (\<lfloor>tokens rl1\<rfloor>, rl1))"

datatype limiter_op = Acquire "int list" | Refill int | GetAvailableTokens int

text \<open>A sequence of operations on one limiter: the token counts that
  \<open>getAvailableTokens\<close> reported, in order, and the limiter afterwards.\<close>

fun run_limiter :: "(rat \<Rightarrow> rat) \<Rightarrow> limiter_op list \<Rightarrow> RateLimiter \<Rightarrow> int list \<times> RateLimiter" where
  "run_limiter rnd [] rl = ([], rl)"
| "run_limiter rnd (Acquire passes # ops) rl = run_limiter rnd ops (snd (acquire rnd passes rl))"
| "run_limiter rnd (Refill now # ops) rl = run_limiter rnd ops (refillTokens rnd now rl)"
| "run_limiter rnd (GetAvailableTokens now # ops) rl =
     (let (n, rl1) = getAvailableTokens rnd now rl;
          (reported, rl2) = run_limiter rnd ops rl1
      in (n # reported, rl2))"

text \<open>The clock readings of a sequence of operations, in the order they are taken.\<close>

fun readings :: "limiter_op list \<Rightarrow> int list" where
  "readings [] = []"
| "readings (Acquire passes # ops) = passes @ readings ops"
| "readings (Refill now # ops) = now # readings ops"
| "readings (GetAvailableTokens now # ops) = now # readings ops"

section \<open>Checkpoint store (src/presentation/progress/ProgressPersistence.js)\<close>

text \<open>
  A checkpoint document as \<open>JSON.parse\<close> returns it, with the fields the store reads.
  The time stamp is the ISO string read back as milliseconds. \<open>cp_state\<close> is \<open>None\<close> for
  a document without a \<open>state\<close> object; an empty \<open>cp_sessionId\<close> is a falsy one.
\<close>

record CheckpointState =
  cp_currentPhase :: string
  cp_status :: string
  cp_totalRecords :: nat
  cp_processedRecords :: nat

record Checkpoint =
  cp_id :: string
  cp_timestamp :: int
  cp_sessionId :: string
  cp_state :: "CheckpointState option"
  cp_csvFile :: "string option"

text \<open>The storage directory: its entries in \<open>readdir\<close> order, each a regular file or a
  directory with its files in \<open>readdir\<close> order; a file holds a checkpoint document or
  something that cannot be read or parsed. \<open>None\<close> is a storage directory that does not
  exist.\<close>

datatype file_content = Json Checkpoint | Unreadable

datatype dir_entry = RegularFile | Directory "(string \<times> file_content) list"

type_synonym storage = "(string \<times> dir_entry) list option"

definition endsWith :: "string \<Rightarrow> string \<Rightarrow> bool" where
  "endsWith s suffix = (length suffix \<le> length s \<and> drop (length s - length suffix) s = suffix)"

text \<open>The loop of \<open>listCheckpoints\<close> over the files of a session directory: a file that
  fails to read or parse is skipped with a warning.\<close>

fun readCheckpointFiles :: "(string \<times> file_content) list \<Rightarrow> Checkpoint list" where
  "readCheckpointFiles [] = []"
| "readCheckpointFiles ((file, content) # files) =
     (if endsWith file ''.json'' then
        (case content of
           Json checkpoint \<Rightarrow> checkpoint # readCheckpointFiles files
         | Unreadable \<Rightarrow> readCheckpointFiles files)
      else readCheckpointFiles files)"

definition listCheckpoints :: "(string \<times> dir_entry) list \<Rightarrow> string \<Rightarrow> js_error + Checkpoint list" where
  "listCheckpoints entries sid =
     (case map_of entries sid of
        None \<Rightarrow> Inr []
      | Some RegularFile \<Rightarrow> Inl (Error ''Failed to list checkpoints: ENOTDIR'')
      | Some (Directory files) \<Rightarrow> Inr (readCheckpointFiles files))"

text \<open>\<open>sort((a, b) => new Date(b.timestamp) - new Date(a.timestamp))\<close>: a stable sort,
  newest first.\<close>

definition sortNewestFirst :: "('a \<Rightarrow> int) \<Rightarrow> 'a list \<Rightarrow> 'a list" where
  "sortNewestFirst ts xs = sort_key (\<lambda>x. - ts x) xs"

text \<open>\<open>deserializeCheckpoint\<close> reads \<open>checkpoint.state.startTime\<close> and so throws on a
  document without a state.\<close>

definition deserializeCheckpoint :: "Checkpoint \<Rightarrow> js_error + Checkpoint" where
  "deserializeCheckpoint d =
     (case cp_state d of
        None \<Rightarrow> Inl (TypeError ''Cannot read properties of undefined (reading startTime)'')
      | Some st \<Rightarrow> Inr d)"

definition loadLatestCheckpoint ::
  "(string \<times> dir_entry) list \<Rightarrow> string \<Rightarrow> js_error + Checkpoint option"
where
  "loadLatestCheckpoint entries sid =
     (case listCheckpoints entries sid of
        Inl e \<Rightarrow> Inl (Error (''Failed to load checkpoint: '' @ message e))
      | Inr checkpoints \<Rightarrow>
          (case sortNewestFirst cp_timestamp checkpoints of
             [] \<Rightarrow> Inr None
           | latestCheckpoint # older \<Rightarrow>
               (case map_of entries sid of
                  Some (Directory files) \<Rightarrow>
                    (case map_of files (cp_id latestCheckpoint @ ''.json'') of
                       Some (Json d) \<Rightarrow>
                         (case deserializeCheckpoint d of
                            Inl e \<Rightarrow> Inl (Error (''Failed to load checkpoint: '' @ message e))
                          | Inr checkpoint \<Rightarrow> Inr (Some checkpoint))
                     | Some Unreadable \<Rightarrow> Inl (Error ''Failed to load checkpoint: unreadable'')
                     | None \<Rightarrow> Inl (Error ''Failed to load checkpoint: ENOENT''))
                | _ \<Rightarrow> Inl (Error ''Failed to load checkpoint: ENOENT''))))"

definition isValid :: "Checkpoint \<Rightarrow> bool" where
  "isValid c =
     (cp_sessionId c \<noteq> [] \<and>
      (case cp_state c of
         None \<Rightarrow> False
       | Some st \<Rightarrow>
           cp_status st \<noteq> ''completed'' \<and> cp_status st \<noteq> ''failed'' \<and>
           cp_processedRecords st < cp_totalRecords st))"

definition getResumePercentage :: "CheckpointState \<Rightarrow> rat" where
  "getResumePercentage st =
     (if cp_totalRecords st = 0 then 0
      else min 100 (of_nat (cp_processedRecords st) / of_nat (cp_totalRecords st) * 100))"

record SessionSummary =
  sum_sessionId :: string
  sum_id :: string
  sum_timestamp :: int
  sum_phase :: string
  sum_progress :: rat
  sum_processed :: nat
  sum_total :: nat
  sum_isValid :: bool
  sum_csvFile :: "string option"

text \<open>\<open>getSummary\<close> reads the state's fields, so it throws where there is no state.\<close>

definition getSummary :: "Checkpoint \<Rightarrow> js_error + SessionSummary" where
  "getSummary c =
     (case cp_state c of
        None \<Rightarrow> Inl (TypeError ''Cannot read properties of undefined'')
      | Some st \<Rightarrow>
          Inr \<lparr> sum_sessionId = cp_sessionId c, sum_id = cp_id c,
                sum_timestamp = cp_timestamp c, sum_phase = cp_currentPhase st,
                sum_progress = getResumePercentage st,
                sum_processed = cp_processedRecords st, sum_total = cp_totalRecords st,
                sum_isValid = isValid c, sum_csvFile = cp_csvFile c \<rparr>)"

text \<open>The loop of \<open>findResumableSessions\<close> over the entries of the storage directory.
  The pushed object is \<open>{ sessionId: sessionDir, ...getSummary() }\<close>, in which the
  summary's own \<open>sessionId\<close> replaces the directory name. A session whose check throws
  is skipped with a warning.\<close>

fun collectResumable ::
  "(string \<times> dir_entry) list \<Rightarrow> (string \<times> dir_entry) list \<Rightarrow> SessionSummary list"
where
  "collectResumable entries [] = []"
| "collectResumable entries ((sessionDir, RegularFile) # rest) = collectResumable entries rest"
| "collectResumable entries ((sessionDir, Directory files) # rest) =
     (case loadLatestCheckpoint entries sessionDir of
        Inr (Some latestCheckpoint) \<Rightarrow>
          (if isValid latestCheckpoint then
             (case getSummary latestCheckpoint of
                Inr summary \<Rightarrow> summary # collectResumable entries rest
              | Inl e \<Rightarrow> collectResumable entries rest)
           else collectResumable entries rest)
      | _ \<Rightarrow> collectResumable entries rest)"

definition findResumableSessions :: "storage \<Rightarrow> js_error + SessionSummary list" where
  "findResumableSessions store =
     (case store of
        None \<Rightarrow> Inr []
      | Some entries \<Rightarrow> Inr (sortNewestFirst sum_timestamp (collectResumable entries entries)))"

section \<open>Predicates used in the proofs\<close>

text \<open>The counter invariant of a progress state.\<close>

definition counters_agree :: "ProgressState \<Rightarrow> bool" where
  "counters_agree s = (processedRecords s = successfulRecords s + failedRecords s)"

text \<open>A try that failed with an error the command does not retry, and the shape of the
  tries of one run within a budget: at least one, at most \<open>max 1 budget\<close>, and none
  after a fatal one.\<close>

definition fatal_try :: "string \<times> outcome \<Rightarrow> bool" where
  "fatal_try t = (case snd t of Inr d \<Rightarrow> False
                  | Inl e \<Rightarrow> (case isRetryable_method e of Some b \<Rightarrow> \<not> b | None \<Rightarrow> True))"

definition tries_ok :: "nat \<Rightarrow> (string \<times> outcome) list \<Rightarrow> bool" where
  "tries_ok budget tries =
     (1 \<le> length tries \<and> length tries \<le> max 1 budget \<and>
      (\<forall>i < length tries. fatal_try (tries ! i) \<longrightarrow> Suc i = length tries))"

text \<open>The calls that one run of the retry loop adds to the log.\<close>

definition tries_of :: "BatchOptions \<Rightarrow> api \<Rightarrow> Command \<Rightarrow> world \<Rightarrow> (string \<times> outcome) list" where
  "tries_of opts remote cmd w = drop (length w) (snd (snd (executeCommandWithRetry opts remote cmd w)))"

definition executor_tries_of :: "api \<Rightarrow> Command \<Rightarrow> world \<Rightarrow> (string \<times> outcome) list" where
  "executor_tries_of remote cmd w = drop (length w) (snd (snd (CommandExecutor_execute remote cmd w)))"

text \<open>Whether \<open>checkDuplicate\<close> throws on an input under a strategy (it does or does not
  whatever the service has seen, see \<open>checkDuplicate_throws\<close>).\<close>

definition throws :: "DeduplicationStrategy \<Rightarrow> dedup_input \<Rightarrow> bool" where
  "throws strat x = isl (fst (checkDuplicate 0 x (new_DeduplicationService (Some strat))))"

text \<open>Results and services with their time stamps blanked: what is left of them when the
  clock is ignored.\<close>

definition erase_seen :: "SeenRecord \<Rightarrow> SeenRecord" where
  "erase_seen r = r\<lparr>firstSeen := 0\<rparr>"

definition erase_entry :: "DuplicateEntry \<Rightarrow> DuplicateEntry" where
  "erase_entry e = e\<lparr>dup_timestamp := 0\<rparr>"

definition erase_result :: "DuplicateResult \<Rightarrow> DuplicateResult" where
  "erase_result r = r\<lparr>timestamp := 0\<rparr>"

definition service_without_time :: "DeduplicationService \<Rightarrow> DeduplicationService" where
  "service_without_time svc =
     svc\<lparr>seenRecords := map (map_prod id erase_seen) (seenRecords svc),
         duplicateGroups := map (map_prod id (map erase_entry)) (duplicateGroups svc)\<rparr>"

definition without_time :: "BatchResults \<Rightarrow> BatchResults" where
  "without_time res = res\<lparr>duplicates := map (map_prod id erase_result) (duplicates res)\<rparr>"

text \<open>The resumability invariant in the spec's words: fewer records processed than there
  are in total, and a status that is neither \<open>completed\<close> nor \<open>failed\<close>.\<close>

definition resumable :: "Checkpoint \<Rightarrow> bool" where
  "resumable c =
     (case cp_state c of
        None \<Rightarrow> False
      | Some st \<Rightarrow>
          cp_processedRecords st < cp_totalRecords st \<and>
          cp_status st \<noteq> ''completed'' \<and> cp_status st \<noteq> ''failed'')"

text \<open>The latest of a list of checkpoints: the one with the greatest time stamp, the
  first such in the list.\<close>

fun latest :: "Checkpoint list \<Rightarrow> Checkpoint option" where
  "latest [] = None"
| "latest (c # cs) =
     (case latest cs of
        None \<Rightarrow> Some c
      | Some d \<Rightarrow> if cp_timestamp d \<le> cp_timestamp c then Some c else Some d)"

text \<open>What the spec has \<open>findResumableSessions\<close> report for one entry of the storage
  directory: the summary of a session directory's latest checkpoint when that checkpoint
  is resumable, and nothing otherwise.\<close>

fun resumable_latest :: "string \<times> dir_entry \<Rightarrow> SessionSummary list" where
  "resumable_latest (d, RegularFile) = []"
| "resumable_latest (d, Directory files) =
     (case latest (readCheckpointFiles files) of
        None \<Rightarrow> []
      | Some c \<Rightarrow>
          if resumable c then (case getSummary c of Inr s \<Rightarrow> [s] | Inl e \<Rightarrow> []) else [])"

definition resumable_session :: "string \<times> dir_entry \<Rightarrow> bool" where
  "resumable_session entry = (resumable_latest entry \<noteq> [])"

text \<open>A storage directory as \<open>saveCheckpoint\<close> fills it: names in a directory are
  distinct, and a checkpoint of session \<open>d\<close> with id \<open>i\<close> is the file \<open>i.json\<close> of the
  directory \<open>d\<close>, whose name is not empty.\<close>

fun wf_file :: "string \<Rightarrow> string \<times> file_content \<Rightarrow> bool" where
  "wf_file d (file, Json c) = (file = cp_id c @ ''.json'' \<and> cp_sessionId c = d \<and> d \<noteq> [])"
| "wf_file d (file, Unreadable) = True"

fun wf_entry :: "string \<times> dir_entry \<Rightarrow> bool" where
  "wf_entry (d, RegularFile) = True"
| "wf_entry (d, Directory files) = (distinct (map fst files) \<and> list_all (wf_file d) files)"

definition wf_storage :: "(string \<times> dir_entry) list \<Rightarrow> bool" where
  "wf_storage entries = (distinct (map fst entries) \<and> list_all wf_entry entries)"

section \<open>Sample data\<close>

text \<open>A subscriber whose email is white space only.\<close>

definition blank_sub :: Subscriber where
  "blank_sub = \<lparr> email = JStr ''   '', firstName = JStr [], lastName = JStr [],
                  phoneNumber = JStr [], createdAt = 0 \<rparr>"

text \<open>A service that is unreachable on the first call and rejects the credentials from
  then on; a service that rejects one address and accepts the others; five commands.\<close>

definition down_then_denied :: api where
  "down_then_denied w payload = (if w = [] then Inl (NetworkError ''down'') else Inl AuthenticationError)"

definition rejects_c :: api where
  "rejects_c w payload = (if payload = ''c@x.org'' then Inl AuthenticationError else Inr ''ok'')"

definition five_commands :: "Command list" where
  "five_commands =
     [new_SubscribeUserCommand ''1'' ''a@x.org'', new_SubscribeUserCommand ''2'' ''b@x.org'',
      new_SubscribeUserCommand ''3'' ''c@x.org'', new_SubscribeUserCommand ''4'' ''d@x.org'',
      new_SubscribeUserCommand ''5'' ''e@x.org'']"

definition sequential_fail_fast :: BatchOptions where
  "sequential_fail_fast = \<lparr> concurrency = 1, failFast = True, retryFailedCommands = True \<rparr>"

text \<open>A limiter with two tokens of burst and one token per second, created at time 0;
  three calls of \<open>acquire\<close>, the third of which has to sleep for a second, and a reading of
  the token count.\<close>

definition three_acquires :: "limiter_op list" where
  "three_acquires = [Acquire [0], Acquire [0], Acquire [0, 1000], GetAvailableTokens 1000]"

text \<open>Arithmetic without rounding error: all the numbers of the samples below are small
  integers, which double arithmetic computes exactly. A clock that is set back by six
  seconds after the limiter was created.\<close>

definition exact :: "rat \<Rightarrow> rat" where
  "exact x = x"

definition clock_set_back :: "limiter_op list" where
  "clock_set_back = [Refill 4000, GetAvailableTokens 4000]"

text \<open>Ten subscribers; the third and the eighth have the same email up to case and
  surrounding white space. Their keys. Two clocks.\<close>

definition with_email :: "string \<Rightarrow> Subscriber" where
  "with_email e = \<lparr> email = JStr e, firstName = JStr [], lastName = JStr [],
                     phoneNumber = JStr [], createdAt = 0 \<rparr>"

definition ten_subscribers :: "Subscriber list" where
  "ten_subscribers =
     map with_email
       [''a@x.org'', ''b@x.org'', ''Ann@X.org'', ''c@x.org'', ''d@x.org'',
        ''e@x.org'', ''f@x.org'', '' ann@x.org '', ''g@x.org'', ''h@x.org'']"

definition ten_keys :: "string list" where
  "ten_keys =
     [''a@x.org'', ''b@x.org'', ''ann@x.org'', ''c@x.org'', ''d@x.org'',
      ''e@x.org'', ''f@x.org'', ''ann@x.org'', ''g@x.org'', ''h@x.org'']"

definition early_clock :: "nat \<Rightarrow> int" where
  "early_clock i = int i"

definition late_clock :: "nat \<Rightarrow> int" where
  "late_clock i = 1000 + int i"

text \<open>The same address twice; a list with two values that are not subscribers.\<close>

definition same_twice :: "dedup_input list" where
  "same_twice = [Instance (with_email ''a@x.org''), Instance (with_email ''a@x.org'')]"

definition mixed_inputs :: "dedup_input list" where
  "mixed_inputs =
     [Instance (with_email ''a@x.org''), NotSubscriber JNull, Instance blank_sub,
      NotSubscriber (JStr ''a@x.org''), Instance (with_email ''A@x.org'')]"

text \<open>A storage directory with three sessions and a stray file. Session \<open>s1\<close> has 100
  records and two checkpoints, the later at 40 processed; \<open>s2\<close> is completed; \<open>s3\<close> is
  paused at 5 of 8, with a checkpoint newer than those of \<open>s1\<close>, and has a file that
  cannot be parsed.\<close>

definition checkpoint_at :: "string \<Rightarrow> string \<Rightarrow> int \<Rightarrow> string \<Rightarrow> nat \<Rightarrow> nat \<Rightarrow> Checkpoint" where
  "checkpoint_at cid sid t st processed total_records =
     \<lparr> cp_id = cid, cp_timestamp = t, cp_sessionId = sid,
       cp_state = Some \<lparr> cp_currentPhase = ''submitting'', cp_status = st,
                         cp_totalRecords = total_records, cp_processedRecords = processed \<rparr>,
       cp_csvFile = Some ''subscribers.csv'' \<rparr>"

definition stored :: "Checkpoint \<Rightarrow> string \<times> file_content" where
  "stored c = (cp_id c @ ''.json'', Json c)"

definition sample_storage :: "(string \<times> dir_entry) list" where
  "sample_storage =
     [(''s1'', Directory [stored (checkpoint_at ''checkpoint_1000'' ''s1'' 1000 ''active'' 10 100),
                          stored (checkpoint_at ''checkpoint_2000'' ''s1'' 2000 ''active'' 40 100)]),
      (''notes.txt'', RegularFile),
      (''s2'', Directory [stored (checkpoint_at ''checkpoint_3000'' ''s2'' 3000 ''completed'' 100 100)]),
      (''s3'', Directory [stored (checkpoint_at ''checkpoint_4000'' ''s3'' 4000 ''paused'' 5 8),
                          (''broken.json'', Unreadable)])]"

section \<open>The progress counters\<close>

lemma counters_updatePerformanceMetrics:
  "processedRecords (updatePerformanceMetrics now s) = processedRecords s"
  "successfulRecords (updatePerformanceMetrics now s) = successfulRecords s"
  "failedRecords (updatePerformanceMetrics now s) = failedRecords s"
  by (simp_all add: updatePerformanceMetrics_def Let_def split: option.splits)

lemma counters_updateCommonMetrics:
  "processedRecords (updateCommonMetrics now h s) = processedRecords s"
  "successfulRecords (updateCommonMetrics now h s) = successfulRecords s"
  "failedRecords (updateCommonMetrics now h s) = failedRecords s"
  by (simp_all add: updateCommonMetrics_def Let_def)

lemma counters_agree_update_switch:
  "counters_agree s \<Longrightarrow> counters_agree (update_switch now ev s)"
  by (induction now ev s rule: update_switch.induct)
     (auto simp: counters_agree_def counters_updatePerformanceMetrics updateAverageBatchTime_def Let_def)

lemma counters_agree_update:
  "counters_agree s \<Longrightarrow> counters_agree (update now h ev s)"
  using counters_agree_update_switch[of s now ev]
  by (simp add: update_def counters_agree_def counters_updateCommonMetrics)

lemma counters_agree_updateProgress:
  "counters_agree (state t) \<Longrightarrow> counters_agree (state (updateProgress now h ev t))"
  by (simp add: updateProgress_def Let_def counters_agree_update)

lemma counters_agree_fields:
  "counters_agree s \<Longrightarrow> counters_agree (s\<lparr>status := a\<rparr>)"
  "counters_agree s \<Longrightarrow> counters_agree (s\<lparr>status := a, endTime := b\<rparr>)"
  "counters_agree s \<Longrightarrow>
     counters_agree (s\<lparr>startTime := c, status := a, totalRecords := n, totalBatches := m\<rparr>)"
  by (simp_all add: counters_agree_def)

lemma counters_agree_tracker_call:
  "counters_agree (state t) \<Longrightarrow> counters_agree (state (tracker_call now h c t))"
  by (cases c) (simp_all add: Let_def counters_agree_updateProgress counters_agree_fields)

lemma counters_agree_run_tracker:
  "counters_agree (state t) \<Longrightarrow> counters_agree (state (run_tracker calls t))"
  by (induction calls arbitrary: t) (auto simp: counters_agree_tracker_call)

lemma counters_agree_run_updates:
  "counters_agree s \<Longrightarrow> counters_agree (run_updates events s)"
  by (induction events arbitrary: s) (auto simp: counters_agree_update)

lemma counters_agree_new: "counters_agree new_ProgressState"
  "counters_agree (state (new_ProgressTracker sid))"
  by (simp_all add: counters_agree_def new_ProgressState_def new_ProgressTracker_def)

text \<open>
  Claim C1. Whatever events are applied to a freshly created \<open>ProgressState\<close>, and
  whatever methods are called on a freshly created tracker (session completion and
  shutdown among them), the state reached satisfies
  \<open>processedRecords = successfulRecords + failedRecords\<close>. Every prefix of a sequence is
  a sequence, so this is the state after every event.
\<close>

theorem processed_is_successful_plus_failed:
  "processedRecords (run_updates events new_ProgressState)
     = successfulRecords (run_updates events new_ProgressState)
       + failedRecords (run_updates events new_ProgressState)
   \<and> processedRecords (state (run_tracker calls (new_ProgressTracker sid)))
     = successfulRecords (state (run_tracker calls (new_ProgressTracker sid)))
       + failedRecords (state (run_tracker calls (new_ProgressTracker sid)))"
  using counters_agree_run_updates[OF counters_agree_new(1), of events]
        counters_agree_run_tracker[OF counters_agree_new(2), of calls sid]
  by (simp add: counters_agree_def)

section \<open>Deduplication: blank keys\<close>

text \<open>
  Claim C5. When the key derived for a record is empty or blank, \<open>checkDuplicate\<close>
  returns a result with \<open>isDuplicate = false\<close> and leaves both maps (\<open>seenRecords\<close> and
  \<open>duplicateGroups\<close>) as they were, whatever the service has seen before.
\<close>

theorem blank_key_classified_unique:
  assumes "generateKey (strategy svc) sub = Inr k" and "blank k"
  shows "fst (checkDuplicate now (Instance sub) svc) = Inr (new_DuplicateResult now False None 0)
         \<and> \<not> isDuplicate (new_DuplicateResult now False None 0)
         \<and> seenRecords (snd (checkDuplicate now (Instance sub) svc)) = seenRecords svc
         \<and> duplicateGroups (snd (checkDuplicate now (Instance sub) svc)) = duplicateGroups svc"
  using assms by (simp add: checkDuplicate.simps Let_def new_DuplicateResult_def)

text \<open>Witness: a white-space email, checked a second time after the service has already
  seen it once.\<close>

theorem blank_key_classified_unique_witness:
  "generateKey (strategy (snd (checkDuplicate 5 (Instance blank_sub) (new_DeduplicationService None)))) blank_sub = Inr []
   \<and> blank []
   \<and> fst (checkDuplicate 7 (Instance blank_sub)
             (snd (checkDuplicate 5 (Instance blank_sub) (new_DeduplicationService None))))
       = Inr (new_DuplicateResult 7 False None 0)
   \<and> seenRecords (snd (checkDuplicate 7 (Instance blank_sub)
             (snd (checkDuplicate 5 (Instance blank_sub) (new_DeduplicationService None))))) = []"
proof -
  let ?svc = "snd (checkDuplicate 5 (Instance blank_sub) (new_DeduplicationService None))"
  have k: "generateKey (strategy ?svc) blank_sub = Inr []" by code_simp
  have b: "blank []" by code_simp
  have s: "seenRecords ?svc = []" by code_simp
  from blank_key_classified_unique[OF k b, of 7]
  have t1: "fst (checkDuplicate 7 (Instance blank_sub) ?svc) = Inr (new_DuplicateResult 7 False None 0)"
    and t2: "seenRecords (snd (checkDuplicate 7 (Instance blank_sub) ?svc)) = seenRecords ?svc"
    by blast+
  from k b t1 t2 s show ?thesis by presburger
qed

section \<open>Error classification\<close>

text \<open>
  Claim C6, as stated, makes every HTTP 5xx error retryable. The code lists the
  retryable statuses one by one: a response with status 501 becomes an \<open>ApiError\<close> whose
  \<open>isRetryable\<close> is false.
\<close>

theorem unlisted_5xx_is_fatal:
  "fromHttpResponse \<lparr> resp_status = Some 501, resp_statusCode = None, resp_retry_after = JUndefined \<rparr>
     = ApiError 501
   \<and> \<not> isRetryableError (ApiError 501)
   \<and> isRetryable_method (ApiError 501) = Some False"
  by (simp add: fromHttpResponse_def isRetryableError_def retryableStatus_def)

lemma isRetryableError_iff:
  "isRetryableError e \<longleftrightarrow>
     (\<exists>m. e = NetworkError m) \<or> e = TimeoutError \<or> (\<exists>ra. e = RateLimitError ra)
     \<or> (\<exists>st. e = ApiError st \<and> (st = 429 \<or> st = 500 \<or> st = 502 \<or> st = 503 \<or> st = 504))
     \<or> (\<exists>es. e = GraphQLError (Some es)
              \<and> (Some ''INTERNAL_ERROR'' \<in> set es \<or> Some ''TIMEOUT'' \<in> set es))
     \<or> (\<exists>st c. e = PlainError (Some st) c
              \<and> (st = 429 \<or> st = 500 \<or> st = 502 \<or> st = 503 \<or> st = 504))
     \<or> (\<exists>c. e = PlainError None (Some c)
              \<and> (c = ''ECONNREFUSED'' \<or> c = ''ENOTFOUND'' \<or> c = ''ETIMEDOUT''))"
proof (cases e)
  case (GraphQLError es)
  then show ?thesis
    by (cases es) (auto simp: isRetryableError_def list_ex_iff)
next
  case (PlainError r c)
  then show ?thesis
    by (cases r; cases c) (auto simp: isRetryableError_def retryableStatus_def)
qed (auto simp: isRetryableError_def retryableStatus_def)

lemma Command_isRetryable_iff:
  "isRetryable (cmd\<lparr>cmd_lastError := Some e\<rparr>)
     \<longleftrightarrow> isRetryableError e \<and> (\<forall>r c. e \<noteq> PlainError r c)"
  by (cases e) (auto simp: isRetryable_def isRetryableError_def split: option.splits)

lemma fromHttpResponse_status:
  "st \<noteq> 0 \<Longrightarrow>
     fromHttpResponse \<lparr> resp_status = Some st, resp_statusCode = sc, resp_retry_after = ra \<rparr>
       = (if st = 401 \<or> st = 403 then AuthenticationError
          else if st = 429 then RateLimitError (if ra = JUndefined then JNull else ra)
          else ApiError st)"
  by (simp add: fromHttpResponse_def new_RateLimitError_def)

lemma fromNetworkError_cases:
  "(fromNetworkError code m = TimeoutError \<longleftrightarrow> code = Some ''ETIMEDOUT'')"
  "code \<noteq> Some ''ETIMEDOUT'' \<Longrightarrow> \<exists>m'. fromNetworkError code m = NetworkError m'"
  "isRetryableError (convertError None code m)"
  by (auto simp: fromNetworkError_def convertError_def isRetryableError_def)

text \<open>
  Claim C6, amended. The classification is this table, for every error.
  \<^item> \<open>HttpClient.isRetryableError\<close> holds exactly for: network errors; timeout errors;
    rate-limit errors; API errors with status 429, 500, 502, 503 or 504; GraphQL errors
    with an entry whose code is \<open>INTERNAL_ERROR\<close> or \<open>TIMEOUT\<close>; errors of no custom
    class that carry a response with one of those five statuses or, without a response,
    one of the codes \<open>ECONNREFUSED\<close>, \<open>ENOTFOUND\<close>, \<open>ETIMEDOUT\<close>. Every other error is
    fatal: authentication errors, API errors with any other status, validation,
    configuration and processing errors, the other GraphQL errors and the other errors
    of no custom class.
  \<^item> \<open>Command.isRetryable\<close> agrees, except that it takes every error of no custom class
    as fatal.
  \<^item> Delays of the errors' own \<open>getRetryDelay\<close>: a rate-limit error \<open>retryAfter * 1000\<close> ms
    when \<open>retryAfter\<close> is truthy and 5000 ms otherwise; an API error 5000 ms for status
    429, 2000 ms for 500, 502, 503 and 504, 1000 ms for any other; a timeout error
    3000 ms; a network error 2000 ms; the other errors have no delay of their own.
  \<^item> \<open>ErrorFactory\<close> makes an authentication error of the statuses 401 and 403, a
    rate-limit error of 429 (with \<open>retryAfter\<close> null where there is no header) and an
    API error of any other status; of an error without a response it makes a timeout
    error for the code \<open>ETIMEDOUT\<close> and a network error otherwise, so what
    \<open>convertError\<close> makes of such an error is always retryable.
\<close>

theorem error_classification_table:
  "(isRetryableError e \<longleftrightarrow>
      (\<exists>m. e = NetworkError m) \<or> e = TimeoutError \<or> (\<exists>ra. e = RateLimitError ra)
      \<or> (\<exists>st. e = ApiError st \<and> (st = 429 \<or> st = 500 \<or> st = 502 \<or> st = 503 \<or> st = 504))
      \<or> (\<exists>es. e = GraphQLError (Some es)
               \<and> (Some ''INTERNAL_ERROR'' \<in> set es \<or> Some ''TIMEOUT'' \<in> set es))
      \<or> (\<exists>st c. e = PlainError (Some st) c
               \<and> (st = 429 \<or> st = 500 \<or> st = 502 \<or> st = 503 \<or> st = 504))
      \<or> (\<exists>c. e = PlainError None (Some c)
               \<and> (c = ''ECONNREFUSED'' \<or> c = ''ENOTFOUND'' \<or> c = ''ETIMEDOUT'')))
   \<and> (isRetryable (cmd\<lparr>cmd_lastError := Some e\<rparr>)
        \<longleftrightarrow> isRetryableError e \<and> (\<forall>r c. e \<noteq> PlainError r c))
   \<and> getRetryDelay_method ofString (RateLimitError ra)
       = Some (if truthy ra then js_times (toNumber ofString ra) 1000 else Number 5000)
   \<and> getRetryDelay_method ofString (ApiError st)
       = Some (Number (if st = 429 then 5000
                       else if st = 500 \<or> st = 502 \<or> st = 503 \<or> st = 504 then 2000
                       else 1000))
   \<and> getRetryDelay_method ofString TimeoutError = Some (Number 3000)
   \<and> getRetryDelay_method ofString (NetworkError m) = Some (Number 2000)
   \<and> ((\<forall>x. e \<noteq> RateLimitError x) \<and> (\<forall>x. e \<noteq> ApiError x) \<and> (\<forall>x. e \<noteq> NetworkError x)
        \<and> e \<noteq> TimeoutError \<longrightarrow> getRetryDelay_method ofString e = None)
   \<and> (st \<noteq> 0 \<longrightarrow>
        fromHttpResponse \<lparr> resp_status = Some st, resp_statusCode = sc, resp_retry_after = ra \<rparr>
          = (if st = 401 \<or> st = 403 then AuthenticationError
             else if st = 429 then RateLimitError (if ra = JUndefined then JNull else ra)
             else ApiError st))
   \<and> (fromNetworkError code m = TimeoutError \<longleftrightarrow> code = Some ''ETIMEDOUT'')
   \<and> (code \<noteq> Some ''ETIMEDOUT'' \<longrightarrow> (\<exists>m'. fromNetworkError code m = NetworkError m'))
   \<and> isRetryableError (convertError None code m)"
proof -
  have d: "(\<forall>x. e \<noteq> RateLimitError x) \<and> (\<forall>x. e \<noteq> ApiError x) \<and> (\<forall>x. e \<noteq> NetworkError x)
             \<and> e \<noteq> TimeoutError \<longrightarrow> getRetryDelay_method ofString e = None"
    by (cases e) auto
  have a: "getRetryDelay_method ofString (ApiError st)
             = Some (Number (if st = 429 then 5000
                             else if st = 500 \<or> st = 502 \<or> st = 503 \<or> st = 504 then 2000
                             else 1000))"
    by simp
  have h: "st \<noteq> 0 \<longrightarrow>
        fromHttpResponse \<lparr> resp_status = Some st, resp_statusCode = sc, resp_retry_after = ra \<rparr>
          = (if st = 401 \<or> st = 403 then AuthenticationError
             else if st = 429 then RateLimitError (if ra = JUndefined then JNull else ra)
             else ApiError st)"
    using fromHttpResponse_status by blast
  have n: "code \<noteq> Some ''ETIMEDOUT'' \<longrightarrow> (\<exists>m'. fromNetworkError code m = NetworkError m')"
    using fromNetworkError_cases(2) by blast
  have r: "getRetryDelay_method ofString (RateLimitError ra)
             = Some (if truthy ra then js_times (toNumber ofString ra) 1000 else Number 5000)"
    "getRetryDelay_method ofString TimeoutError = Some (Number 3000)"
    "getRetryDelay_method ofString (NetworkError m) = Some (Number 2000)"
    by simp_all
  from isRetryableError_iff[of e] Command_isRetryable_iff[of e cmd] r a d h
    fromNetworkError_cases(1)[of code m] n fromNetworkError_cases(3)[of code m]
  show ?thesis by (intro conjI)
qed

text \<open>Witness: a GraphQL error with a \<open>TIMEOUT\<close> entry; errors of no class with status 503
  and with a code that is not a network code; a 429 response with and without the
  header; the statuses 503 and 404; a refused connection.\<close>

theorem error_classification_table_witness:
  "isRetryableError (GraphQLError (Some [None, Some ''TIMEOUT'']))
   \<and> isRetryableError (PlainError (Some 503) None)
   \<and> \<not> isRetryable ((new_SubscribeUserCommand ''c1'' ''a@x.org'')
                       \<lparr>cmd_lastError := Some (PlainError (Some 503) None)\<rparr>)
   \<and> \<not> isRetryableError (PlainError None (Some ''EPIPE''))
   \<and> getRetryDelay_method (\<lambda>s. Number 30) (PlainError (Some 503) None) = None
   \<and> fromHttpResponse \<lparr> resp_status = Some 429, resp_statusCode = None, resp_retry_after = JUndefined \<rparr>
       = RateLimitError JNull
   \<and> fromHttpResponse \<lparr> resp_status = Some 403, resp_statusCode = None, resp_retry_after = JNull \<rparr>
       = AuthenticationError
   \<and> getRetryDelay_method (\<lambda>s. Number 30) (RateLimitError (JStr ''30'')) = Some (Number 30000)
   \<and> getRetryDelay_method (\<lambda>s. Number 30) (RateLimitError JNull) = Some (Number 5000)
   \<and> getRetryDelay_method (\<lambda>s. Number 30) (RateLimitError (JObject (Number 30))) = Some (Number 30000)
   \<and> getRetryDelay_method (\<lambda>s. Number 30) (ApiError 503) = Some (Number 2000)
   \<and> \<not> isRetryableError (ApiError 404)
   \<and> (\<exists>m'. fromNetworkError (Some ''ECONNREFUSED'') ''refused'' = NetworkError m')
   \<and> isRetryableError (convertError None None ''boom'')"
  using error_classification_table[where e="GraphQLError (Some [None, Some ''TIMEOUT''])"
          and cmd="new_SubscribeUserCommand ''c1'' ''a@x.org''" and ofString="\<lambda>s. Number 30"
          and ra="JStr ''30''" and st=503 and m="''refused''" and sc=None
          and code="Some ''ECONNREFUSED''"]
        error_classification_table[where e="PlainError (Some 503) None"
          and cmd="new_SubscribeUserCommand ''c1'' ''a@x.org''" and ofString="\<lambda>s. Number 30"
          and ra=JUndefined and st=429 and m="''boom''" and sc=None and code=None]
        error_classification_table[where e="PlainError None (Some ''EPIPE'')"
          and cmd="new_SubscribeUserCommand ''c1'' ''a@x.org''" and ofString="\<lambda>s. Number 30"
          and ra=JNull and st=403 and m="''boom''" and sc=None and code=None]
        error_classification_table[where e="ApiError 404"
          and cmd="new_SubscribeUserCommand ''c1'' ''a@x.org''" and ofString="\<lambda>s. Number 30"
          and ra="JObject (Number 30)" and st=404 and m="''boom''" and sc=None and code=None]
  by simp

section \<open>Retry loop and sequential batches\<close>

lemma execute_facts:
  assumes "execute remote cmd w = (result, cmd', w')"
  shows "w' = w @ [(subscriberData cmd, remote w (subscriberData cmd))]"
    and "attempts cmd' = attempts cmd + 1"
    and "maxRetries cmd' = maxRetries cmd"
    and "success result = (\<exists>d. remote w (subscriberData cmd) = Inr d)"
    and "\<And>e. remote w (subscriberData cmd) = Inl e \<Longrightarrow> cmd_lastError cmd' = Some e"
  using assms by (auto simp: execute_def Let_def split: sum.splits)

lemma tries_ok_single: "tries_ok b [t]"
  by (simp add: tries_ok_def)

lemma tries_ok_Cons:
  assumes "tries_ok (b - 1) ts" "1 < b" "\<not> fatal_try t"
  shows "tries_ok b (t # ts)"
  using assms unfolding tries_ok_def
  by (auto simp: nth_Cons split: nat.splits)

lemma executeCommandWithRetry_tries:
  "\<exists>tries. snd (snd (executeCommandWithRetry opts remote cmd w)) = w @ tries
           \<and> tries_ok (maxRetries cmd - attempts cmd) tries"
proof (induction opts remote cmd w rule: executeCommandWithRetry.induct)
  case (1 opts remote cmd w)
  obtain result cmd' w' where ex: "execute remote cmd w = (result, cmd', w')"
    by (cases "execute remote cmd w") auto
  note f = execute_facts[OF ex]
  let ?t = "(subscriberData cmd, remote w (subscriberData cmd))"
  show ?case
  proof (cases "\<not> success result \<and> canRetry cmd' \<and> retryFailedCommands opts")
    case False
    then have "snd (snd (executeCommandWithRetry opts remote cmd w)) = w @ [?t]"
      using ex f(1) by (subst executeCommandWithRetry.simps) (auto simp: Let_def)
    then show ?thesis using tries_ok_single by blast
  next
    case True
    then have eq: "executeCommandWithRetry opts remote cmd w
                     = executeCommandWithRetry opts remote cmd' w'"
      using ex by (subst executeCommandWithRetry.simps) (auto simp: Let_def)
    from "1.IH"[OF ex[symmetric] refl refl] True
    obtain tries where t: "snd (snd (executeCommandWithRetry opts remote cmd' w')) = w' @ tries"
      "tries_ok (maxRetries cmd' - attempts cmd') tries" by auto
    from True obtain e where e: "remote w (subscriberData cmd) = Inl e"
      using f(4) by (cases "remote w (subscriberData cmd)") auto
    have nf: "\<not> fatal_try ?t"
      using True f(5)[OF e] e
      by (auto simp: fatal_try_def canRetry_def isRetryable_def split: option.splits)
    have b: "1 < maxRetries cmd - attempts cmd"
      using True f(2,3) by (auto simp: canRetry_def)
    have "tries_ok (maxRetries cmd - attempts cmd) (?t # tries)"
      using tries_ok_Cons[OF _ b nf] t(2) f(2,3) by simp
    then show ?thesis using eq t(1) f(1) by auto
  qed
qed


lemma CommandExecutor_execute_eq:
  "retryFailedCommands opts \<Longrightarrow>
     CommandExecutor_execute remote cmd w = executeCommandWithRetry opts remote cmd w"
proof (induction remote cmd w rule: CommandExecutor_execute.induct)
  case (1 remote cmd w)
  obtain result cmd' w' where ex: "execute remote cmd w = (result, cmd', w')"
    by (cases "execute remote cmd w") auto
  show ?case
  proof (cases "\<not> success result \<and> canRetry cmd'")
    case True
    with "1.IH"[OF ex[symmetric] refl refl] "1.prems" ex show ?thesis
      by (subst CommandExecutor_execute.simps, subst executeCommandWithRetry.simps) simp
  next
    case False
    with ex show ?thesis
      by (subst CommandExecutor_execute.simps, subst executeCommandWithRetry.simps) auto
  qed
qed

lemma tries_ok_bound:
  assumes "tries_ok (m - a) tries"
  shows "1 \<le> length tries" "length tries \<le> m + 1"
    and "\<And>i e. i < length tries \<Longrightarrow> snd (tries ! i) = Inl e \<Longrightarrow>
           \<not> isRetryable (cmd\<lparr>cmd_lastError := Some e\<rparr>) \<Longrightarrow> Suc i = length tries"
  using assms unfolding tries_ok_def fatal_try_def isRetryable_def
  by (auto split: option.splits)

text \<open>
  Claim C2. One run of the retry loop (\<open>BatchProcessCommand.executeCommandWithRetry\<close>,
  and likewise \<open>CommandExecutor.execute\<close>) calls the command's \<open>execute\<close> at least once
  and at most \<open>maxRetries + 1\<close> times, and a try that fails with an error the command
  classifies as not retryable is the last try of the run.
\<close>

theorem retry_tries_bounded:
  "(snd (snd (executeCommandWithRetry opts remote cmd w)) = w @ tries_of opts remote cmd w
    \<and> 1 \<le> length (tries_of opts remote cmd w)
    \<and> length (tries_of opts remote cmd w) \<le> maxRetries cmd + 1
    \<and> (\<forall>i e. i < length (tries_of opts remote cmd w)
             \<and> snd (tries_of opts remote cmd w ! i) = Inl e
             \<and> \<not> isRetryable (cmd\<lparr>cmd_lastError := Some e\<rparr>)
           \<longrightarrow> Suc i = length (tries_of opts remote cmd w)))
   \<and> (snd (snd (CommandExecutor_execute remote cmd w)) = w @ executor_tries_of remote cmd w
    \<and> 1 \<le> length (executor_tries_of remote cmd w)
    \<and> length (executor_tries_of remote cmd w) \<le> maxRetries cmd + 1
    \<and> (\<forall>i e. i < length (executor_tries_of remote cmd w)
             \<and> snd (executor_tries_of remote cmd w ! i) = Inl e
             \<and> \<not> isRetryable (cmd\<lparr>cmd_lastError := Some e\<rparr>)
           \<longrightarrow> Suc i = length (executor_tries_of remote cmd w)))"
proof -
  obtain tries where t: "snd (snd (executeCommandWithRetry opts remote cmd w)) = w @ tries"
    "tries_ok (maxRetries cmd - attempts cmd) tries"
    using executeCommandWithRetry_tries by blast
  have t': "tries_of opts remote cmd w = tries"
    by (simp add: tries_of_def t(1))
  let ?o = "\<lparr> concurrency = 1, failFast = False, retryFailedCommands = True \<rparr>"
  obtain tries2 where u: "snd (snd (executeCommandWithRetry ?o remote cmd w)) = w @ tries2"
    "tries_ok (maxRetries cmd - attempts cmd) tries2"
    using executeCommandWithRetry_tries by blast
  have ce: "CommandExecutor_execute remote cmd w = executeCommandWithRetry ?o remote cmd w"
    by (rule CommandExecutor_execute_eq) simp
  have u1: "snd (snd (CommandExecutor_execute remote cmd w)) = w @ tries2"
    by (simp only: ce u(1))
  have u': "executor_tries_of remote cmd w = tries2"
    unfolding executor_tries_of_def u1 by simp
  show ?thesis
    unfolding t' u'
    using t(1) u1 tries_ok_bound[OF t(2)] tries_ok_bound[OF u(2)] by blast
qed


text \<open>Witness: a command with three retries allowed; the service is unreachable at the
  first try and rejects the credentials at the second, which ends the run.\<close>

theorem retry_tries_bounded_witness:
  "tries_of sequential_fail_fast down_then_denied (new_SubscribeUserCommand ''1'' ''a@x.org'') []
     = [(''a@x.org'', Inl (NetworkError ''down'')), (''a@x.org'', Inl AuthenticationError)]
   \<and> maxRetries (new_SubscribeUserCommand ''1'' ''a@x.org'') = 3
   \<and> \<not> isRetryable ((new_SubscribeUserCommand ''1'' ''a@x.org'')\<lparr>cmd_lastError := Some AuthenticationError\<rparr>)
   \<and> Suc 1 = length (tries_of sequential_fail_fast down_then_denied
                       (new_SubscribeUserCommand ''1'' ''a@x.org'') [])
   \<and> length (tries_of sequential_fail_fast down_then_denied
                (new_SubscribeUserCommand ''1'' ''a@x.org'') [])
       \<le> maxRetries (new_SubscribeUserCommand ''1'' ''a@x.org'') + 1"
proof -
  let ?cmd = "new_SubscribeUserCommand ''1'' ''a@x.org''"
  let ?tries = "tries_of sequential_fail_fast down_then_denied ?cmd []"
  have c: "?tries = [(''a@x.org'', Inl (NetworkError ''down'')), (''a@x.org'', Inl AuthenticationError)]"
    by code_simp
  have m: "maxRetries ?cmd = 3" by code_simp
  have f: "\<not> isRetryable (?cmd\<lparr>cmd_lastError := Some AuthenticationError\<rparr>)" by code_simp
  have i: "1 < length ?tries" "snd (?tries ! 1) = Inl AuthenticationError"
    unfolding c by simp_all
  from retry_tries_bounded[of sequential_fail_fast down_then_denied ?cmd "[]"]
  have b: "length ?tries \<le> maxRetries ?cmd + 1"
    and l: "\<forall>i e. i < length ?tries \<and> snd (?tries ! i) = Inl e
              \<and> \<not> isRetryable (?cmd\<lparr>cmd_lastError := Some e\<rparr>) \<longrightarrow> Suc i = length ?tries"
    by blast+
  from l i f have "Suc 1 = length ?tries" by blast
  with c m f b show ?thesis by blast
qed

lemma processSequentially_all_success:
  assumes "processSequentially opts remote commands w = (rs, cs, w')" "\<forall>r\<in>set rs. success r"
  shows "length rs = length commands"
  using assms
proof (induction commands arbitrary: w rs cs w')
  case Nil
  then show ?case by simp
next
  case (Cons c rest)
  obtain r c' w1 where ex: "executeCommandWithRetry opts remote c w = (r, c', w1)"
    by (cases "executeCommandWithRetry opts remote c w") auto
  obtain rs' cs' w2 where ps: "processSequentially opts remote rest w1 = (rs', cs', w2)"
    by (cases "processSequentially opts remote rest w1") auto
  show ?case
  proof (cases "failFast opts \<and> \<not> success r")
    case True
    with Cons.prems ex show ?thesis by auto
  next
    case False
    with Cons.prems ex ps have "rs = r # rs'" by auto
    with Cons.IH[OF ps] Cons.prems(2) show ?thesis by auto
  qed
qed

lemma processSequentially_length_commands:
  "processSequentially opts remote commands w = (rs, cs, w') \<Longrightarrow> length cs = length commands"
proof (induction commands arbitrary: w rs cs w')
  case Nil
  then show ?case by simp
next
  case (Cons c rest)
  obtain r c' w1 where ex: "executeCommandWithRetry opts remote c w = (r, c', w1)"
    by (cases "executeCommandWithRetry opts remote c w") auto
  obtain rs' cs' w2 where ps: "processSequentially opts remote rest w1 = (rs', cs', w2)"
    by (cases "processSequentially opts remote rest w1") auto
  from Cons.prems ex ps Cons.IH[OF ps] show ?case
    by (auto split: if_splits)
qed

lemma fail_fast_prefix:
  assumes "failFast opts" "k < length commands"
    and "processSequentially opts remote (take k commands) w = (rs, cs, wk)"
    and "\<forall>r\<in>set rs. success r"
    and "executeCommandWithRetry opts remote (commands ! k) wk = (r, c, w')"
    and "\<not> success r"
  shows "processSequentially opts remote commands w
           = (rs @ [r], cs @ c # drop (Suc k) commands, w')"
  using assms
proof (induction commands arbitrary: k w rs cs wk)
  case Nil
  then show ?case by simp
next
  case (Cons c0 rest)
  show ?case
  proof (cases k)
    case 0
    with Cons.prems show ?thesis by simp
  next
    case (Suc j)
    obtain r0 c0' w1 where ex: "executeCommandWithRetry opts remote c0 w = (r0, c0', w1)"
      by (cases "executeCommandWithRetry opts remote c0 w") auto
    obtain rs' cs' w2 where ps: "processSequentially opts remote (take j rest) w1 = (rs', cs', w2)"
      by (cases "processSequentially opts remote (take j rest) w1") auto
    have s0: "success r0"
      using Cons.prems(3,4) ex Suc by (auto split: if_splits prod.splits)
    then have pre: "rs = r0 # rs'" "cs = c0' # cs'" "wk = w2"
      using Cons.prems(3) ex ps Suc by auto
    have "processSequentially opts remote rest w1
            = (rs' @ [r], cs' @ c # drop (Suc j) rest, w')"
      using Cons.IH[OF Cons.prems(1) _ ps] Cons.prems(2,4,5,6) pre Suc by simp
    then show ?thesis using ex s0 pre Suc by simp
  qed
qed

text \<open>
  Claim C3. With \<open>concurrency = 1\<close> and \<open>failFast\<close> set, let the command at index \<open>k\<close>
  (counted from 0, so the \<open>k+1\<close>-th) be the first whose final result is a failure: the
  commands before it, run in order, all succeed, and it fails in the world they leave.
  Then the batch returns exactly \<open>k + 1\<close> results, those of the commands up to index \<open>k\<close>
  in input order with the last one failed; the commands behind index \<open>k\<close> are untouched,
  and the world is the one the failing command left.
\<close>

theorem fail_fast_stops_at_first_failure:
  assumes "concurrency opts = 1" and "failFast opts" and "k < length commands"
    and "processSequentially opts remote (take k commands) w = (rs, cs, wk)"
    and "\<forall>r\<in>set rs. success r"
    and "executeCommandWithRetry opts remote (commands ! k) wk = (r, c, w')"
    and "\<not> success r"
  shows "BatchProcessCommand_processBatch opts remote commands w
           = Some (rs @ [r], cs @ c # drop (Suc k) commands, w')
         \<and> length (rs @ [r]) = Suc k
         \<and> \<not> success ((rs @ [r]) ! k)
         \<and> (\<forall>i<k. success ((rs @ [r]) ! i))
         \<and> drop (Suc k) (cs @ c # drop (Suc k) commands) = drop (Suc k) commands"
proof -
  have len: "length rs = k"
    using processSequentially_all_success[OF assms(4,5)] assms(3) by simp
  have lcs: "length cs = k"
    using processSequentially_length_commands[OF assms(4)] assms(3) by simp
  show ?thesis
    using fail_fast_prefix[OF assms(2-7)] assms(1,5,7) len lcs
    by (auto simp: BatchProcessCommand_processBatch_def nth_append)
qed


text \<open>Witness: five commands, the third rejected with an authentication error. Three
  results come back, the fourth and fifth command have no attempt, and the service saw
  three calls.\<close>

theorem fail_fast_stops_at_first_failure_witness:
  "concurrency sequential_fail_fast = 1 \<and> failFast sequential_fail_fast
   \<and> 2 < length five_commands
   \<and> map success (fst (processSequentially sequential_fail_fast rejects_c (take 2 five_commands) []))
       = [True, True]
   \<and> \<not> success (fst (executeCommandWithRetry sequential_fail_fast rejects_c (five_commands ! 2)
                        (snd (snd (processSequentially sequential_fail_fast rejects_c
                                     (take 2 five_commands) [])))))
   \<and> length (fst (the (BatchProcessCommand_processBatch sequential_fail_fast rejects_c
                         five_commands []))) = 3
   \<and> map success (fst (the (BatchProcessCommand_processBatch sequential_fail_fast rejects_c
                              five_commands []))) = [True, True, False]
   \<and> map attempts (fst (snd (the (BatchProcessCommand_processBatch sequential_fail_fast rejects_c
                                    five_commands [])))) = [1, 1, 1, 0, 0]
   \<and> map fst (snd (snd (the (BatchProcessCommand_processBatch sequential_fail_fast rejects_c
                               five_commands [])))) = [''a@x.org'', ''b@x.org'', ''c@x.org'']"
proof -
  let ?pre = "processSequentially sequential_fail_fast rejects_c (take 2 five_commands) []"
  let ?ex = "executeCommandWithRetry sequential_fail_fast rejects_c (five_commands ! 2)
               (snd (snd ?pre))"
  let ?run = "BatchProcessCommand_processBatch sequential_fail_fast rejects_c five_commands []"
  have h1: "concurrency sequential_fail_fast = 1" by code_simp
  have h2: "failFast sequential_fail_fast" by code_simp
  have h3: "2 < length five_commands" by code_simp
  have h4: "?pre = (fst ?pre, fst (snd ?pre), snd (snd ?pre))" by simp
  have h5: "\<forall>r\<in>set (fst ?pre). success r" by code_simp
  have h6: "?ex = (fst ?ex, fst (snd ?ex), snd (snd ?ex))" by simp
  have h7: "\<not> success (fst ?ex)" by code_simp
  from fail_fast_stops_at_first_failure[OF h1 h2 h3 h4 h5 h6 h7]
  have l: "length (fst (the ?run)) = 3" by simp
  have m0: "map success (fst ?pre) = [True, True]" by code_simp
  have m1: "map success (fst (the ?run)) = [True, True, False]" by code_simp
  have m2: "map attempts (fst (snd (the ?run))) = [1, 1, 1, 0, 0]" by code_simp
  have m3: "map fst (snd (snd (the ?run))) = [''a@x.org'', ''b@x.org'', ''c@x.org'']" by code_simp
  from h1 h2 h3 m0 h7 l m1 m2 m3 show ?thesis by blast
qed

section \<open>Rate limiter\<close>

lemma refillTokens_fields:
  "maxTokens (refillTokens rnd now rl) = maxTokens rl"
  "refillRate (refillTokens rnd now rl) = refillRate rl"
  "lastRefill (refillTokens rnd now rl) = now"
  "tokens (refillTokens rnd now rl) \<le> maxTokens rl"
  by (simp_all add: refillTokens_def Let_def)

lemma rnd_nonneg: "mono rnd \<Longrightarrow> rnd 0 = 0 \<Longrightarrow> 0 \<le> x \<Longrightarrow> 0 \<le> rnd (x :: rat)"
  by (metis monoD)

lemma refillTokens_nonneg:
  assumes "mono rnd" "rnd 0 = 0"
    and "0 \<le> tokens rl" "0 \<le> maxTokens rl" "0 \<le> refillRate rl" "lastRefill rl \<le> now"
  shows "0 \<le> tokens (refillTokens rnd now rl)"
proof -
  note r = rnd_nonneg[OF assms(1,2)]
  have "0 \<le> (of_int (now - lastRefill rl) :: rat) / 1000"
    using assms(6) by simp
  then have "0 \<le> rnd (of_int (now - lastRefill rl) / 1000)" by (rule r)
  then have "0 \<le> rnd (of_int (now - lastRefill rl) / 1000) * refillRate rl"
    using assms(5) by (rule mult_nonneg_nonneg)
  then have "0 \<le> rnd (rnd (of_int (now - lastRefill rl) / 1000) * refillRate rl)" by (rule r)
  then have "0 \<le> tokens rl + rnd (rnd (of_int (now - lastRefill rl) / 1000) * refillRate rl)"
    using assms(3) by simp
  then have "0 \<le> rnd (tokens rl + rnd (rnd (of_int (now - lastRefill rl) / 1000) * refillRate rl))"
    by (rule r)
  then show ?thesis
    using assms(4) by (simp add: refillTokens_def Let_def)
qed

lemma acquire_fields:
  "maxTokens (snd (acquire rnd passes rl)) = maxTokens rl"
  "refillRate (snd (acquire rnd passes rl)) = refillRate rl"
  by (induction passes arbitrary: rl) (auto simp: Let_def refillTokens_fields)

lemma acquire_lastRefill:
  "lastRefill (snd (acquire rnd passes rl)) \<in> set (lastRefill rl # passes)"
proof (induction passes arbitrary: rl)
  case Nil
  then show ?case by simp
next
  case (Cons now later)
  from Cons.IH[of "refillTokens rnd now rl"] show ?case
    by (auto simp: Let_def refillTokens_fields)
qed

lemma acquire_nonneg:
  assumes "mono rnd" "rnd 0 = 0"
    and "0 \<le> tokens rl" "0 \<le> maxTokens rl" "0 \<le> refillRate rl"
    and "sorted (lastRefill rl # passes)"
  shows "0 \<le> tokens (snd (acquire rnd passes rl))"
  using assms(3-)
proof (induction passes arbitrary: rl)
  case Nil
  then show ?case by simp
next
  case (Cons now later)
  let ?rl1 = "refillTokens rnd now rl"
  have n1: "0 \<le> tokens ?rl1"
    using refillTokens_nonneg[OF assms(1,2), of rl now] Cons.prems by simp
  have s1: "sorted (lastRefill ?rl1 # later)"
    using Cons.prems(4) by (simp add: refillTokens_fields)
  show ?case
  proof (cases "tokens ?rl1 \<ge> 1")
    case True
    then have "0 \<le> rnd (tokens ?rl1 - 1)"
      using rnd_nonneg[OF assms(1,2)] by simp
    with True show ?thesis by (simp add: Let_def)
  next
    case False
    then show ?thesis
      using Cons.IH[OF n1 _ _ s1] Cons.prems(2,3) by (simp add: Let_def refillTokens_fields)
  qed
qed

lemma run_limiter_upper:
  assumes "run_limiter rnd ops rl = (reported, rl')"
  shows "(\<forall>n\<in>set reported. of_int n \<le> maxTokens rl) \<and> maxTokens rl' = maxTokens rl"
  using assms
proof (induction ops arbitrary: rl reported rl')
  case Nil
  then show ?case by simp
next
  case (Cons op ops)
  show ?case
  proof (cases op)
    case (Acquire passes)
    with Cons.prems Cons.IH[of "snd (acquire rnd passes rl)" reported rl'] show ?thesis
      by (simp add: acquire_fields)
  next
    case (Refill now)
    with Cons.prems Cons.IH[of "refillTokens rnd now rl" reported rl'] show ?thesis
      by (simp add: refillTokens_fields)
  next
    case (GetAvailableTokens now)
    obtain rep2 rl2 where r2: "run_limiter rnd ops (refillTokens rnd now rl) = (rep2, rl2)"
      by (cases "run_limiter rnd ops (refillTokens rnd now rl)") auto
    have ih: "(\<forall>n\<in>set rep2. of_int n \<le> maxTokens rl) \<and> maxTokens rl2 = maxTokens rl"
      using Cons.IH[OF r2] by (simp add: refillTokens_fields)
    have fl: "of_int \<lfloor>tokens (refillTokens rnd now rl)\<rfloor> \<le> maxTokens rl"
      using of_int_floor_le[of "tokens (refillTokens rnd now rl)"]
        refillTokens_fields(4)[of rnd now rl]
      by (rule order_trans)
    from Cons.prems GetAvailableTokens r2 ih fl show ?thesis
      by (auto simp: getAvailableTokens_def Let_def)
  qed
qed

lemma sorted_later:
  "sorted (a # xs @ ys) \<Longrightarrow> b \<in> set (a # xs) \<Longrightarrow> sorted (b # ys)"
  by (auto simp: sorted_append)

lemma run_limiter_nonneg:
  assumes "mono rnd" "rnd 0 = 0"
    and "run_limiter rnd ops rl = (reported, rl')"
    and "0 \<le> tokens rl" "0 \<le> maxTokens rl" "0 \<le> refillRate rl"
    and "sorted (lastRefill rl # readings ops)"
  shows "0 \<le> tokens rl' \<and> (\<forall>n\<in>set reported. 0 \<le> n)"
  using assms(3-)
proof (induction ops arbitrary: rl reported rl')
  case Nil
  then show ?case by simp
next
  case (Cons op ops)
  show ?case
  proof (cases op)
    case (Acquire passes)
    let ?rl1 = "snd (acquire rnd passes rl)"
    have a: "0 \<le> tokens ?rl1"
      using acquire_nonneg[OF assms(1,2), of rl passes] Cons.prems Acquire
      by (auto simp: sorted_append)
    have s: "sorted (lastRefill ?rl1 # readings ops)"
      using sorted_later[of "lastRefill rl" passes "readings ops" "lastRefill ?rl1"]
        Cons.prems(5) acquire_lastRefill[of rnd passes rl] Acquire by simp
    have r: "run_limiter rnd ops ?rl1 = (reported, rl')"
      using Cons.prems(1) Acquire by simp
    show ?thesis
      using Cons.IH[OF r a _ _ s] Cons.prems(3,4) by (simp add: acquire_fields)
  next
    case (Refill now)
    let ?rl1 = "refillTokens rnd now rl"
    have a: "0 \<le> tokens ?rl1"
      using refillTokens_nonneg[OF assms(1,2), of rl now] Cons.prems Refill by simp
    have s: "sorted (lastRefill ?rl1 # readings ops)"
      using Cons.prems(5) Refill by (simp add: refillTokens_fields)
    have r: "run_limiter rnd ops ?rl1 = (reported, rl')"
      using Cons.prems(1) Refill by simp
    show ?thesis
      using Cons.IH[OF r a _ _ s] Cons.prems(3,4) by (simp add: refillTokens_fields)
  next
    case (GetAvailableTokens now)
    let ?rl1 = "refillTokens rnd now rl"
    obtain rep2 rl2 where r2: "run_limiter rnd ops ?rl1 = (rep2, rl2)"
      by (cases "run_limiter rnd ops ?rl1") auto
    have a: "0 \<le> tokens ?rl1"
      using refillTokens_nonneg[OF assms(1,2), of rl now] Cons.prems GetAvailableTokens by simp
    have s: "sorted (lastRefill ?rl1 # readings ops)"
      using Cons.prems(5) GetAvailableTokens by (simp add: refillTokens_fields)
    have ih: "0 \<le> tokens rl2 \<and> (\<forall>n\<in>set rep2. 0 \<le> n)"
      using Cons.IH[OF r2 a _ _ s] Cons.prems(3,4) by (simp add: refillTokens_fields)
    from Cons.prems(1) GetAvailableTokens r2 ih a show ?thesis
      by (auto simp: getAvailableTokens_def Let_def)
  qed
qed

text \<open>
  Claim C7, as stated, keeps the token count at or above zero over every sequence of
  operations. \<open>refillTokens\<close> adds the elapsed time times the rate whatever its sign, and
  \<open>Date.now()\<close> is the wall clock: when it is set back, the count drops. A limiter with
  capacity 5 and one token per second, created at 10000 ms and refilled at 4000 ms,
  holds \<open>5 + (-6) * 1 = -1\<close> tokens, and \<open>getAvailableTokens\<close> returns -1.
\<close>

theorem clock_set_back_goes_negative:
  "tokens (refillTokens exact 4000 (new_RateLimiter 10000 1 5)) = - 1
   \<and> run_limiter exact clock_set_back (new_RateLimiter 10000 1 5)
       = ([- 1], \<lparr> tokens = - 1, maxTokens = 5, refillRate = 1, lastRefill = 4000 \<rparr>)
   \<and> \<not> 0 \<le> tokens (snd (run_limiter exact clock_set_back (new_RateLimiter 10000 1 5)))"
proof -
  have a: "tokens (refillTokens exact 4000 (new_RateLimiter 10000 1 5)) = - 1" by code_simp
  have b: "run_limiter exact clock_set_back (new_RateLimiter 10000 1 5)
             = ([- 1], \<lparr> tokens = - 1, maxTokens = 5, refillRate = 1, lastRefill = 4000 \<rparr>)"
    by code_simp
  from a b show ?thesis by simp
qed

text \<open>
  Claim C7, amended. Take any sequence of \<open>acquire\<close>, \<open>refillTokens\<close> and
  \<open>getAvailableTokens\<close> operations on a limiter constructed at time \<open>t0\<close> with rate \<open>r\<close> and
  burst capacity \<open>c\<close>. Every value \<open>getAvailableTokens\<close> returns is at most \<open>c\<close>, whatever
  the clock and the rounding do. When the capacity and the rate are not negative and
  the clock readings never decrease, then, for a rounding that is monotone and exact
  at 0 (as that of doubles is), the token count after the sequence is not negative, and
  no value returned is. A prefix of a sequence is a sequence, and an \<open>acquire\<close> cut
  short is an \<open>acquire\<close> with fewer passes, so this holds at every point of a run.
\<close>

theorem limiter_token_bounds:
  assumes "run_limiter rnd ops (new_RateLimiter t0 r c) = (reported, rl)"
  shows "(\<forall>n\<in>set reported. of_int n \<le> c)
         \<and> (mono rnd \<and> rnd 0 = 0 \<and> 0 \<le> c \<and> 0 \<le> r \<and> sorted (t0 # readings ops)
              \<longrightarrow> 0 \<le> tokens rl \<and> (\<forall>n\<in>set reported. 0 \<le> n))"
proof -
  have u: "\<forall>n\<in>set reported. of_int n \<le> c"
    using run_limiter_upper[OF assms] by (simp add: new_RateLimiter_def)
  have l: "mono rnd \<and> rnd 0 = 0 \<and> 0 \<le> c \<and> 0 \<le> r \<and> sorted (t0 # readings ops)
             \<longrightarrow> 0 \<le> tokens rl \<and> (\<forall>n\<in>set reported. 0 \<le> n)"
  proof
    assume h: "mono rnd \<and> rnd 0 = 0 \<and> 0 \<le> c \<and> 0 \<le> r \<and> sorted (t0 # readings ops)"
    then show "0 \<le> tokens rl \<and> (\<forall>n\<in>set reported. 0 \<le> n)"
      using run_limiter_nonneg[of rnd ops "new_RateLimiter t0 r c" reported rl] assms
      by (simp add: new_RateLimiter_def)
  qed
  from u l show ?thesis by blast
qed

text \<open>Witness: capacity 2, one token per second, three calls of \<open>acquire\<close> in a row: the
  third finds the bucket empty at time 0 and gets its token after a second.\<close>

theorem limiter_token_bounds_witness:
  "run_limiter exact three_acquires (new_RateLimiter 0 1 2)
     = ([0], snd (run_limiter exact three_acquires (new_RateLimiter 0 1 2)))
   \<and> mono exact \<and> exact 0 = 0
   \<and> (0::rat) \<le> 2 \<and> (0::rat) \<le> 1 \<and> sorted (0 # readings three_acquires)
   \<and> list_all (\<lambda>n. 0 \<le> n \<and> of_int n \<le> (2::rat)) [0::int]
   \<and> tokens (snd (run_limiter exact three_acquires (new_RateLimiter 0 1 2))) = 0
   \<and> 0 \<le> tokens (snd (run_limiter exact three_acquires (new_RateLimiter 0 1 2)))
   \<and> fst (acquire exact [0, 1000]
            (snd (run_limiter exact [Acquire [0], Acquire [0]] (new_RateLimiter 0 1 2))))"
proof -
  let ?run = "run_limiter exact three_acquires (new_RateLimiter 0 1 2)"
  have h1: "?run = ([0], snd ?run)" by code_simp
  have h2: "sorted (0 # readings three_acquires)" by code_simp
  have m: "mono exact" "exact 0 = 0" by (simp_all add: mono_def exact_def)
  have t0: "tokens (snd ?run) = 0" by code_simp
  have a3: "fst (acquire exact [0, 1000]
                   (snd (run_limiter exact [Acquire [0], Acquire [0]] (new_RateLimiter 0 1 2))))"
    by code_simp
  from limiter_token_bounds[OF h1] h2 m
  have "0 \<le> tokens (snd ?run)" "\<forall>n\<in>set [0::int]. of_int n \<le> (2::rat)" by simp_all
  with h1 h2 m t0 a3 show ?thesis by simp
qed

section \<open>Deduplication: first occurrence wins\<close>

lemma checkDuplicate_strategy:
  "strategy (snd (checkDuplicate now x svc)) = strategy svc"
  by (cases x) (auto simp: checkDuplicate.simps Let_def split: sum.splits option.splits)

lemma checkDuplicate_new:
  assumes "generateKey (strategy svc) sub = Inr k" "\<not> blank k" "map_of (seenRecords svc) k = None"
  shows "fst (checkDuplicate now (Instance sub) svc) = Inr (new_DuplicateResult now False None 0)"
    and "map_of (seenRecords (snd (checkDuplicate now (Instance sub) svc)))
           = (map_of (seenRecords svc))(k \<mapsto> \<lparr> subscriber = sub, count = 1, firstSeen = now, key = k \<rparr>)"
  using assms by (simp_all add: checkDuplicate.simps Let_def update_conv')

lemma checkDuplicate_seen:
  assumes "generateKey (strategy svc) sub = Inr k" "\<not> blank k"
    and "map_of (seenRecords svc) k = Some existing"
  shows "fst (checkDuplicate now (Instance sub) svc)
           = Inr (new_DuplicateResult now True (Some (subscriber existing)) (count existing + 1))"
    and "map_of (seenRecords (snd (checkDuplicate now (Instance sub) svc)))
           = (map_of (seenRecords svc))(k \<mapsto> existing\<lparr>count := count existing + 1\<rparr>)"
  using assms by (simp_all add: checkDuplicate.simps Let_def update_conv')

lemma checkDuplicate_throws:
  "isl (fst (checkDuplicate now x svc)) = throws (strategy svc) x"
  by (cases x)
     (auto simp: checkDuplicate.simps throws_def Let_def new_DeduplicationService_def
        split: sum.splits option.splits)

lemma processBatch_loop_append:
  "processBatch_loop clock i (xs @ ys) res svc
     = processBatch_loop clock (i + length xs) ys
         (fst (processBatch_loop clock i xs res svc)) (snd (processBatch_loop clock i xs res svc))"
proof (induction xs arbitrary: i res svc)
  case Nil
  then show ?case by simp
next
  case (Cons x xs)
  show ?case
    by (cases "checkDuplicate (clock i) x svc"; cases "fst (checkDuplicate (clock i) x svc)"; cases x)
       (simp_all add: Cons.IH)
qed


lemma loop_step_unique:
  assumes "fst (checkDuplicate (clock i) (Instance sub) svc) = Inr r" "\<not> isDuplicate r"
  shows "processBatch_loop clock i (Instance sub # xs) res svc
           = processBatch_loop clock (Suc i) xs (res\<lparr>unique := unique res @ [sub]\<rparr>)
               (snd (checkDuplicate (clock i) (Instance sub) svc))"
  using assms
  by (cases "checkDuplicate (clock i) (Instance sub) svc") simp

lemma loop_step_duplicate:
  assumes "fst (checkDuplicate (clock i) (Instance sub) svc) = Inr r" "isDuplicate r"
  shows "processBatch_loop clock i (Instance sub # xs) res svc
           = processBatch_loop clock (Suc i) xs (res\<lparr>duplicates := duplicates res @ [(sub, r)]\<rparr>)
               (snd (checkDuplicate (clock i) (Instance sub) svc))"
  using assms
  by (cases "checkDuplicate (clock i) (Instance sub) svc") simp

lemma loop_step_error:
  assumes "fst (checkDuplicate (clock i) x svc) = Inl e"
  shows "processBatch_loop clock i (x # xs) res svc
           = processBatch_loop clock (Suc i) xs
               (res\<lparr>batch_errors := batch_errors res @ [(x, message e)]\<rparr>)
               (snd (checkDuplicate (clock i) x svc))"
  using assms
  by (cases "checkDuplicate (clock i) x svc") simp

lemma fresh_run:
  assumes "map (generateKey (strategy svc)) xs = map Inr ks"
    and "\<forall>k\<in>set ks. \<not> blank k" and "distinct ks"
    and "\<forall>k\<in>set ks. map_of (seenRecords svc) k = None"
  shows "\<exists>svc'. processBatch_loop clock i (map Instance xs) res svc
                   = (res\<lparr>unique := unique res @ xs\<rparr>, svc')
               \<and> strategy svc' = strategy svc
               \<and> (\<forall>k. k \<notin> set ks \<longrightarrow> map_of (seenRecords svc') k = map_of (seenRecords svc) k)
               \<and> (\<forall>p<length xs. \<exists>rec. map_of (seenRecords svc') (ks ! p) = Some rec
                                     \<and> subscriber rec = xs ! p \<and> count rec = 1)"
  using assms
proof (induction xs arbitrary: ks i res svc)
  case Nil
  then show ?case by simp
next
  case (Cons x xs)
  from Cons.prems(1) obtain k ks' where ks: "ks = k # ks'"
    and kx: "generateKey (strategy svc) x = Inr k"
    and rest: "map (generateKey (strategy svc)) xs = map Inr ks'"
    by (cases ks) auto
  let ?svc1 = "snd (checkDuplicate (clock i) (Instance x) svc)"
  have nb: "\<not> blank k" and nk: "map_of (seenRecords svc) k = None"
    using Cons.prems(2,4) ks by auto
  note st = checkDuplicate_new[OF kx nb nk, of "clock i"]
  have str: "strategy ?svc1 = strategy svc" by (rule checkDuplicate_strategy)
  have step: "processBatch_loop clock i (map Instance (x # xs)) res svc
                = processBatch_loop clock (Suc i) (map Instance xs)
                    (res\<lparr>unique := unique res @ [x]\<rparr>) ?svc1"
    using loop_step_unique[where clock=clock and i=i and xs="map Instance xs" and res=res, OF st(1)]
    by (simp add: new_DuplicateResult_def)
  have p1: "map (generateKey (strategy ?svc1)) xs = map Inr ks'"
    using rest str by simp
  have p4: "\<forall>k'\<in>set ks'. map_of (seenRecords ?svc1) k' = None"
    using Cons.prems(3,4) ks st(2) by auto
  from Cons.IH[OF p1 _ _ p4, of "Suc i" "res\<lparr>unique := unique res @ [x]\<rparr>"] Cons.prems(2,3) ks
  obtain svc' where
    run: "processBatch_loop clock (Suc i) (map Instance xs) (res\<lparr>unique := unique res @ [x]\<rparr>) ?svc1
            = (res\<lparr>unique := unique res @ [x]\<rparr>\<lparr>unique := unique (res\<lparr>unique := unique res @ [x]\<rparr>) @ xs\<rparr>, svc')"
    and s': "strategy svc' = strategy ?svc1"
    and keep: "\<forall>k. k \<notin> set ks' \<longrightarrow> map_of (seenRecords svc') k = map_of (seenRecords ?svc1) k"
    and recs: "\<forall>p<length xs. \<exists>rec. map_of (seenRecords svc') (ks' ! p) = Some rec
                 \<and> subscriber rec = xs ! p \<and> count rec = 1"
    by auto
  have a: "processBatch_loop clock i (map Instance (x # xs)) res svc
             = (res\<lparr>unique := unique res @ x # xs\<rparr>, svc')"
    using step run by simp
  have b: "\<forall>k'. k' \<notin> set ks \<longrightarrow> map_of (seenRecords svc') k' = map_of (seenRecords svc) k'"
    using keep st(2) ks by auto
  have k0: "k \<notin> set ks'" using Cons.prems(3) ks by simp
  have c: "\<forall>p<length (x # xs). \<exists>rec. map_of (seenRecords svc') (ks ! p) = Some rec
               \<and> subscriber rec = (x # xs) ! p \<and> count rec = 1"
  proof (intro allI impI)
    fix p assume "p < length (x # xs)"
    show "\<exists>rec. map_of (seenRecords svc') (ks ! p) = Some rec
               \<and> subscriber rec = (x # xs) ! p \<and> count rec = 1"
    proof (cases p)
      case 0
      then show ?thesis using keep k0 st(2) ks by simp
    next
      case (Suc q)
      then show ?thesis using recs \<open>p < length (x # xs)\<close> ks by simp
    qed
  qed
  from a b c s' str show ?case by auto
qed


lemma one_shared_key_loop:
  assumes strat: "strategy svc = EmailDeduplicationStrategy" and fresh: "seenRecords svc = []"
    and keys: "map (generateKey EmailDeduplicationStrategy) subs = map Inr keys"
    and nb: "\<forall>k\<in>set keys. \<not> blank k"
    and ij: "i < j" "j < length subs" and same: "keys ! i = keys ! j"
    and only: "\<forall>a b. a < b \<and> b < length subs \<and> keys ! a = keys ! b \<longrightarrow> a = i \<and> b = j"
  shows "fst (processBatch_loop clock 0 (map Instance subs)
                \<lparr> unique = [], duplicates = [], batch_errors = [] \<rparr> svc)
           = \<lparr> unique = take j subs @ drop (Suc j) subs,
               duplicates = [(subs ! j, new_DuplicateResult (clock j) True (Some (subs ! i)) 2)],
               batch_errors = [] \<rparr>"
proof -
  let ?A = "take j subs" and ?kA = "take j keys"
  let ?C = "drop (Suc j) subs" and ?kC = "drop (Suc j) keys"
  let ?res0 = "\<lparr> unique = [], duplicates = [], batch_errors = [] \<rparr>"
  have len: "length keys = length subs"
    using keys by (metis length_map)
  have key_at: "\<And>p. p < length subs \<Longrightarrow> generateKey EmailDeduplicationStrategy (subs ! p) = Inr (keys ! p)"
    using keys len by (metis nth_map)
  have split: "map Instance subs = map Instance ?A @ (Instance (subs ! j) # map Instance ?C)"
    using id_take_nth_drop[OF ij(2)] by (metis list.simps(9) map_append)
  \<comment> \<open>the records before the second of the pair\<close>
  have a1: "map (generateKey (strategy svc)) ?A = map Inr ?kA"
    using keys strat by (metis take_map)
  have a2: "\<forall>k\<in>set ?kA. \<not> blank k" using nb by (meson in_set_takeD)
  have a3: "distinct ?kA"
  proof (rule ccontr)
    assume "\<not> distinct ?kA"
    then obtain a b where "a < b" "b < length ?kA" "?kA ! a = ?kA ! b"
      by (metis distinct_conv_nth linorder_neqE_nat)
    then have "a < b" "b < j" "b < length subs" "keys ! a = keys ! b"
      using len ij by auto
    with only show False by blast
  qed
  have a4: "\<forall>k\<in>set ?kA. map_of (seenRecords svc) k = None" using fresh by simp
  from fresh_run[OF a1 a2 a3 a4, of clock 0 ?res0]
  obtain svcA where
    runA: "processBatch_loop clock 0 (map Instance ?A) ?res0 svc = (?res0\<lparr>unique := ?A\<rparr>, svcA)"
    and sA: "strategy svcA = EmailDeduplicationStrategy"
    and keepA: "\<forall>k. k \<notin> set ?kA \<longrightarrow> map_of (seenRecords svcA) k = map_of (seenRecords svc) k"
    and recsA: "\<forall>p<length ?A. \<exists>rec. map_of (seenRecords svcA) (?kA ! p) = Some rec
                  \<and> subscriber rec = ?A ! p \<and> count rec = 1"
    using strat by auto
  have lA: "length ?A = j" using ij by simp
  from recsA ij lA obtain rec where
    rec: "map_of (seenRecords svcA) (keys ! i) = Some rec" "subscriber rec = subs ! i" "count rec = 1"
    by (metis nth_take)
  \<comment> \<open>the second of the pair\<close>
  let ?svcB = "snd (checkDuplicate (clock j) (Instance (subs ! j)) svcA)"
  let ?r = "new_DuplicateResult (clock j) True (Some (subs ! i)) 2"
  have kj: "generateKey (strategy svcA) (subs ! j) = Inr (keys ! j)"
    using key_at[OF ij(2)] sA by simp
  have nbj: "\<not> blank (keys ! j)" using nb ij len by simp
  have seenj: "map_of (seenRecords svcA) (keys ! j) = Some rec" using rec(1) same by simp
  note d = checkDuplicate_seen[OF kj nbj seenj, of "clock j"]
  have dr: "fst (checkDuplicate (clock j) (Instance (subs ! j)) svcA) = Inr ?r"
    using d(1) rec by (simp add: numeral_2_eq_2)
  have sB: "strategy ?svcB = EmailDeduplicationStrategy"
    using sA by (simp add: checkDuplicate_strategy)
  have stepB: "processBatch_loop clock j (Instance (subs ! j) # map Instance ?C) (?res0\<lparr>unique := ?A\<rparr>) svcA
                 = processBatch_loop clock (Suc j) (map Instance ?C)
                     (?res0\<lparr>unique := ?A\<rparr>\<lparr>duplicates := [(subs ! j, ?r)]\<rparr>) ?svcB"
    using loop_step_duplicate[where clock=clock and i=j and xs="map Instance ?C"
            and res="?res0\<lparr>unique := ?A\<rparr>", OF dr]
    by (simp add: new_DuplicateResult_def)
  \<comment> \<open>the records behind it\<close>
  have c1: "map (generateKey (strategy ?svcB)) ?C = map Inr ?kC"
    using keys sB by (metis drop_map)
  have c2: "\<forall>k\<in>set ?kC. \<not> blank k" using nb by (meson in_set_dropD)
  have c3: "distinct ?kC"
  proof (rule ccontr)
    assume "\<not> distinct ?kC"
    then obtain a b where "a < b" "b < length ?kC" "?kC ! a = ?kC ! b"
      by (metis distinct_conv_nth linorder_neqE_nat)
    then have "Suc j + a < Suc j + b" "Suc j + b < length subs"
      "keys ! (Suc j + a) = keys ! (Suc j + b)"
      using len by auto
    with only have "Suc j + b = j" by blast
    then show False by simp
  qed
  have c4: "\<forall>k\<in>set ?kC. map_of (seenRecords ?svcB) k = None"
  proof
    fix k assume "k \<in> set ?kC"
    then obtain q where q: "q < length ?kC" "k = ?kC ! q" by (metis in_set_conv_nth)
    then have kq: "k = keys ! (Suc j + q)" "Suc j + q < length subs" using len by auto
    have n1: "k \<noteq> keys ! j"
    proof
      assume "k = keys ! j"
      then have "j < Suc j + q \<and> Suc j + q < length subs \<and> keys ! j = keys ! (Suc j + q)"
        using kq by simp
      with only have "Suc j + q = j" by blast
      then show False by simp
    qed
    have n2: "k \<notin> set ?kA"
    proof
      assume "k \<in> set ?kA"
      then obtain a where a: "a < length ?kA" "k = ?kA ! a" by (metis in_set_conv_nth)
      then have "a < Suc j + q \<and> Suc j + q < length subs \<and> keys ! a = keys ! (Suc j + q)"
        using kq len ij by auto
      with only have "Suc j + q = j" by blast
      then show False by simp
    qed
    have "map_of (seenRecords ?svcB) k = map_of (seenRecords svcA) k"
      using d(2) n1 by simp
    also have "\<dots> = map_of (seenRecords svc) k" using keepA n2 by blast
    also have "\<dots> = None" using fresh by simp
    finally show "map_of (seenRecords ?svcB) k = None" .
  qed
  from fresh_run[OF c1 c2 c3 c4, of clock "Suc j" "?res0\<lparr>unique := ?A\<rparr>\<lparr>duplicates := [(subs ! j, ?r)]\<rparr>"]
  obtain svcC where
    runC: "processBatch_loop clock (Suc j) (map Instance ?C)
             (?res0\<lparr>unique := ?A\<rparr>\<lparr>duplicates := [(subs ! j, ?r)]\<rparr>) ?svcB
           = (\<lparr> unique = ?A @ ?C, duplicates = [(subs ! j, ?r)], batch_errors = [] \<rparr>, svcC)"
    by auto
  have "processBatch_loop clock 0 (map Instance subs) ?res0 svc
          = processBatch_loop clock j (Instance (subs ! j) # map Instance ?C) (?res0\<lparr>unique := ?A\<rparr>) svcA"
    using processBatch_loop_append[of clock 0 "map Instance ?A" "Instance (subs ! j) # map Instance ?C" ?res0 svc]
      split runA lA by (simp del: processBatch_loop.simps)
  also have "\<dots> = (\<lparr> unique = ?A @ ?C, duplicates = [(subs ! j, ?r)], batch_errors = [] \<rparr>, svcC)"
    using stepB runC by (simp only:)
  finally show ?thesis by simp
qed

text \<open>
  Claim C4. A service with the email strategy that has seen nothing yet processes a list
  of subscribers whose keys are all derived and not blank. The records at positions
  \<open>i < j\<close> have the same key and no other two positions do. Then \<open>unique\<close> has all
  records but the one at \<open>j\<close>, in input order (\<open>n - 1\<close> of them), \<open>duplicates\<close> has exactly
  one entry, for the record at \<open>j\<close>, whose \<open>originalRecord\<close> is the record at \<open>i\<close>, and
  nothing is reported as an error.
\<close>

theorem one_shared_email:
  assumes "strategy svc = EmailDeduplicationStrategy" and "seenRecords svc = []"
    and "map (generateKey EmailDeduplicationStrategy) subs = map Inr keys"
    and "\<forall>k\<in>set keys. \<not> blank k"
    and "i < j" and "j < length subs" and "keys ! i = keys ! j"
    and "\<forall>a b. a < b \<and> b < length subs \<and> keys ! a = keys ! b \<longrightarrow> a = i \<and> b = j"
  shows "length (unique (fst (processBatch clock (map Instance subs) svc))) = length subs - 1
       \<and> length (duplicates (fst (processBatch clock (map Instance subs) svc))) = 1
       \<and> unique (fst (processBatch clock (map Instance subs) svc)) = take j subs @ drop (Suc j) subs
       \<and> duplicates (fst (processBatch clock (map Instance subs) svc))
           = [(subs ! j, new_DuplicateResult (clock j) True (Some (subs ! i)) 2)]
       \<and> originalRecord (snd (hd (duplicates (fst (processBatch clock (map Instance subs) svc)))))
           = Some (subs ! i)
       \<and> batch_errors (fst (processBatch clock (map Instance subs) svc)) = []"
proof -
  have "fst (processBatch clock (map Instance subs) svc)
          = fst (processBatch_loop clock 0 (map Instance subs)
                   \<lparr> unique = [], duplicates = [], batch_errors = [] \<rparr> svc)"
    by (simp add: processBatch_def split: prod.splits)
  then have "fst (processBatch clock (map Instance subs) svc)
          = \<lparr> unique = take j subs @ drop (Suc j) subs,
               duplicates = [(subs ! j, new_DuplicateResult (clock j) True (Some (subs ! i)) 2)],
               batch_errors = [] \<rparr>"
    using one_shared_key_loop[OF assms] by simp
  then show ?thesis using assms(5,6) by (simp add: new_DuplicateResult_def)
qed


text \<open>Witness: ten subscribers, of which the third (\<open>Ann@X.org\<close>) and the eighth
  (\<open>ann@x.org\<close> with spaces around it) share a key.\<close>

theorem one_shared_email_witness:
  "strategy (new_DeduplicationService None) = EmailDeduplicationStrategy
   \<and> seenRecords (new_DeduplicationService None) = []
   \<and> map (generateKey EmailDeduplicationStrategy) ten_subscribers = map Inr ten_keys
   \<and> list_all (\<lambda>k. \<not> blank k) ten_keys
   \<and> length ten_subscribers = 10 \<and> ten_keys ! 2 = ten_keys ! 7
   \<and> length (unique (fst (processBatch early_clock (map Instance ten_subscribers)
                             (new_DeduplicationService None)))) = 9
   \<and> length (duplicates (fst (processBatch early_clock (map Instance ten_subscribers)
                                 (new_DeduplicationService None)))) = 1
   \<and> originalRecord (snd (hd (duplicates (fst (processBatch early_clock (map Instance ten_subscribers)
                                                 (new_DeduplicationService None))))))
       = Some (with_email ''Ann@X.org'')"
proof -
  let ?svc = "new_DeduplicationService None"
  have h1: "strategy ?svc = EmailDeduplicationStrategy" by code_simp
  have h2: "seenRecords ?svc = []" by code_simp
  have h3: "map (generateKey EmailDeduplicationStrategy) ten_subscribers = map Inr ten_keys"
    by code_simp
  have h4: "\<forall>k\<in>set ten_keys. \<not> blank k" by code_simp
  have h4': "list_all (\<lambda>k. \<not> blank k) ten_keys" using h4 by (simp add: list_all_iff)
  have h5: "(2::nat) < 7" by simp
  have len: "length ten_subscribers = 10" by code_simp
  have h6: "7 < length ten_subscribers" using len by simp
  have h7: "ten_keys ! 2 = ten_keys ! 7" by code_simp
  have b: "\<forall>a\<in>set [0..<10]. \<forall>b\<in>set [0..<10].
             a < b \<and> ten_keys ! a = ten_keys ! b \<longrightarrow> a = 2 \<and> b = 7"
    by code_simp
  have h8: "\<forall>a b. a < b \<and> b < length ten_subscribers \<and> ten_keys ! a = ten_keys ! b
              \<longrightarrow> a = 2 \<and> b = 7"
  proof (intro allI impI)
    fix a b :: nat
    assume ab: "a < b \<and> b < length ten_subscribers \<and> ten_keys ! a = ten_keys ! b"
    then have "a \<in> set [0..<10]" "b \<in> set [0..<10]" using len by auto
    with b ab show "a = 2 \<and> b = 7" by blast
  qed
  have o: "ten_subscribers ! 2 = with_email ''Ann@X.org''" by code_simp
  let ?res = "fst (processBatch early_clock (map Instance ten_subscribers) ?svc)"
  from one_shared_email[OF h1 h2 h3 h4 h5 h6 h7 h8, of early_clock]
  have u: "length (unique ?res) = length ten_subscribers - 1"
    and d: "length (duplicates ?res) = 1"
    and r: "originalRecord (snd (hd (duplicates ?res))) = Some (ten_subscribers ! 2)"
    by blast+
  have u': "length (unique ?res) = 9" using u len by simp
  have r': "originalRecord (snd (hd (duplicates ?res))) = Some (with_email ''Ann@X.org'')"
    using r by (simp only: o)
  from h1 h2 h3 h4' len h7 u' d r' show ?thesis by blast
qed

section \<open>Deduplication: malformed input\<close>

lemma throws_simps:
  "throws strat (NotSubscriber v)"
  "throws strat (Instance sub) = isl (generateKey strat sub)"
  by (auto simp: throws_def checkDuplicate.simps Let_def new_DeduplicationService_def
      split: sum.splits option.splits)

lemma loop_accounting:
  "map fst (batch_errors (fst (processBatch_loop clock i xs res svc)))
     = map fst (batch_errors res) @ filter (throws (strategy svc)) xs
   \<and> length (unique (fst (processBatch_loop clock i xs res svc)))
     + length (duplicates (fst (processBatch_loop clock i xs res svc)))
     + length (batch_errors (fst (processBatch_loop clock i xs res svc)))
     = length (unique res) + length (duplicates res) + length (batch_errors res) + length xs"
proof (induction xs arbitrary: i res svc)
  case Nil
  then show ?case by simp
next
  case (Cons x xs)
  let ?svc1 = "snd (checkDuplicate (clock i) x svc)"
  have str: "strategy ?svc1 = strategy svc" by (rule checkDuplicate_strategy)
  show ?case
  proof (cases "fst (checkDuplicate (clock i) x svc)")
    case (Inl e)
    then have t: "throws (strategy svc) x"
      using checkDuplicate_throws[of "clock i" x svc] by simp
    show ?thesis
      using Cons.IH[of "Suc i" "res\<lparr>batch_errors := batch_errors res @ [(x, message e)]\<rparr>" ?svc1]
        loop_step_error[where clock=clock and i=i and xs=xs and res=res, OF Inl] t str
      by simp
  next
    case (Inr r)
    then have t: "\<not> throws (strategy svc) x"
      using checkDuplicate_throws[of "clock i" x svc] by simp
    then obtain sub where x: "x = Instance sub"
      by (cases x) (auto simp: throws_simps)
    show ?thesis
    proof (cases "isDuplicate r")
      case True
      show ?thesis
        using Cons.IH[of "Suc i" "res\<lparr>duplicates := duplicates res @ [(sub, r)]\<rparr>" ?svc1]
          loop_step_duplicate[where clock=clock and i=i and xs=xs and res=res, OF Inr[unfolded x] True]
          t str x
        by simp
    next
      case False
      show ?thesis
        using Cons.IH[of "Suc i" "res\<lparr>unique := unique res @ [sub]\<rparr>" ?svc1]
          loop_step_unique[where clock=clock and i=i and xs=xs and res=res, OF Inr[unfolded x] False]
          t str x
        by simp
    qed
  qed
qed

lemma loop_partition:
  "mset (map Instance (unique (fst (processBatch_loop clock i xs res svc))))
     + mset (map (\<lambda>d. Instance (fst d)) (duplicates (fst (processBatch_loop clock i xs res svc))))
     + mset (map fst (batch_errors (fst (processBatch_loop clock i xs res svc))))
   = mset (map Instance (unique res)) + mset (map (\<lambda>d. Instance (fst d)) (duplicates res))
     + mset (map fst (batch_errors res)) + mset xs
   \<and> list_all (\<lambda>d. isDuplicate (snd d)) (duplicates (fst (processBatch_loop clock i xs res svc)))
     = list_all (\<lambda>d. isDuplicate (snd d)) (duplicates res)"
proof (induction xs arbitrary: i res svc)
  case Nil
  then show ?case by simp
next
  case (Cons x xs)
  let ?svc1 = "snd (checkDuplicate (clock i) x svc)"
  show ?case
  proof (cases "fst (checkDuplicate (clock i) x svc)")
    case (Inl e)
    show ?thesis
      using Cons.IH[of "Suc i" "res\<lparr>batch_errors := batch_errors res @ [(x, message e)]\<rparr>" ?svc1]
        loop_step_error[where clock=clock and i=i and xs=xs and res=res, OF Inl]
      by simp
  next
    case (Inr r)
    then have "\<not> throws (strategy svc) x"
      using checkDuplicate_throws[of "clock i" x svc] by simp
    then obtain sub where x: "x = Instance sub"
      by (cases x) (auto simp: throws_simps)
    show ?thesis
    proof (cases "isDuplicate r")
      case True
      show ?thesis
        using Cons.IH[of "Suc i" "res\<lparr>duplicates := duplicates res @ [(sub, r)]\<rparr>" ?svc1]
          loop_step_duplicate[where clock=clock and i=i and xs=xs and res=res, OF Inr[unfolded x] True]
          x True
        by simp
    next
      case False
      show ?thesis
        using Cons.IH[of "Suc i" "res\<lparr>unique := unique res @ [sub]\<rparr>" ?svc1]
          loop_step_unique[where clock=clock and i=i and xs=xs and res=res, OF Inr[unfolded x] False]
          x
        by simp
    qed
  qed
qed

text \<open>
  Claim C9, as stated, has \<open>checkDuplicate\<close> return normally on every value. Its first
  statement is a guard that throws on anything that is not a \<open>Subscriber\<close>.
\<close>

theorem checkDuplicate_rejects_non_subscriber:
  "checkDuplicate 0 (NotSubscriber JNull) (new_DeduplicationService None)
     = (Inl (Error ''Data must be a Subscriber instance''), new_DeduplicationService None)"
  by (simp add: checkDuplicate.simps)

text \<open>
  Claim C9, amended. \<open>checkDuplicate\<close> throws \<open>Data must be a Subscriber instance\<close> on a
  value that is not a \<open>Subscriber\<close> and leaves the service as it was; on a \<open>Subscriber\<close>
  whose key is derived it returns a result, which for an empty or blank key says
  \<open>isDuplicate = false\<close>. \<open>processBatch\<close>, given an array, catches what
  \<open>checkDuplicate\<close> throws and returns its three lists, which partition the
  input: the elements of \<open>unique\<close>, the subscribers of \<open>duplicates\<close> and the elements
  reported in \<open>errors\<close> are together the elements of the input, each as often as it
  occurs there. The elements reported in \<open>errors\<close> are, in input order, exactly those
  on which \<open>checkDuplicate\<close> throws, and every entry of \<open>duplicates\<close> carries a result
  that says \<open>isDuplicate = true\<close>.
\<close>

theorem processBatch_records_what_throws:
  "checkDuplicate now (NotSubscriber v) svc = (Inl (Error ''Data must be a Subscriber instance''), svc)
   \<and> (generateKey (strategy svc) sub = Inr k \<longrightarrow> \<not> isl (fst (checkDuplicate now (Instance sub) svc)))
   \<and> (generateKey (strategy svc) sub = Inr k \<and> blank k \<longrightarrow>
        fst (checkDuplicate now (Instance sub) svc) = Inr (new_DuplicateResult now False None 0))
   \<and> throws (strategy svc) (NotSubscriber v)
   \<and> map fst (batch_errors (fst (processBatch clock xs svc))) = filter (throws (strategy svc)) xs
   \<and> mset (map Instance (unique (fst (processBatch clock xs svc))))
     + mset (map (\<lambda>d. Instance (fst d)) (duplicates (fst (processBatch clock xs svc))))
     + mset (map fst (batch_errors (fst (processBatch clock xs svc)))) = mset xs
   \<and> list_all (\<lambda>d. isDuplicate (snd d)) (duplicates (fst (processBatch clock xs svc)))
   \<and> length (unique (fst (processBatch clock xs svc)))
     + length (duplicates (fst (processBatch clock xs svc)))
     + length (batch_errors (fst (processBatch clock xs svc))) = length xs"
proof -
  have p: "fst (processBatch clock xs svc)
             = fst (processBatch_loop clock 0 xs \<lparr> unique = [], duplicates = [], batch_errors = [] \<rparr> svc)"
    by (simp add: processBatch_def split: prod.splits)
  have c: "generateKey (strategy svc) sub = Inr k \<longrightarrow> \<not> isl (fst (checkDuplicate now (Instance sub) svc))"
    using checkDuplicate_throws[of now "Instance sub" svc] by (auto simp: throws_simps)
  have b: "generateKey (strategy svc) sub = Inr k \<and> blank k \<longrightarrow>
             fst (checkDuplicate now (Instance sub) svc) = Inr (new_DuplicateResult now False None 0)"
    by (simp add: checkDuplicate.simps Let_def)
  have n: "checkDuplicate now (NotSubscriber v) svc
             = (Inl (Error ''Data must be a Subscriber instance''), svc)"
    by (simp add: checkDuplicate.simps)
  from loop_accounting[of clock 0 xs "\<lparr> unique = [], duplicates = [], batch_errors = [] \<rparr>" svc]
  have a: "map fst (batch_errors (fst (processBatch clock xs svc))) = filter (throws (strategy svc)) xs"
    and l: "length (unique (fst (processBatch clock xs svc)))
            + length (duplicates (fst (processBatch clock xs svc)))
            + length (batch_errors (fst (processBatch clock xs svc))) = length xs"
    unfolding p by simp_all
  from loop_partition[of clock 0 xs "\<lparr> unique = [], duplicates = [], batch_errors = [] \<rparr>" svc]
  have m: "mset (map Instance (unique (fst (processBatch clock xs svc))))
           + mset (map (\<lambda>d. Instance (fst d)) (duplicates (fst (processBatch clock xs svc))))
           + mset (map fst (batch_errors (fst (processBatch clock xs svc)))) = mset xs"
    and d: "list_all (\<lambda>d. isDuplicate (snd d)) (duplicates (fst (processBatch clock xs svc)))"
    unfolding p by simp_all
  from n c b throws_simps(1)[of "strategy svc" v] a m d l show ?thesis by blast
qed

text \<open>Witness: a list of five with \<open>null\<close> and a bare string among three subscribers,
  one of them with a blank email. The first and the blank one are unique, the last
  repeats the first in another case, and the two that are no subscribers are reported.\<close>

theorem processBatch_records_what_throws_witness:
  "generateKey (strategy (new_DeduplicationService None)) blank_sub = Inr []
   \<and> blank []
   \<and> \<not> isl (fst (checkDuplicate 3 (Instance blank_sub) (new_DeduplicationService None)))
   \<and> fst (checkDuplicate 3 (Instance blank_sub) (new_DeduplicationService None))
       = Inr (new_DuplicateResult 3 False None 0)
   \<and> map fst (batch_errors (fst (processBatch early_clock mixed_inputs (new_DeduplicationService None))))
       = [NotSubscriber JNull, NotSubscriber (JStr ''a@x.org'')]
   \<and> unique (fst (processBatch early_clock mixed_inputs (new_DeduplicationService None)))
       = [with_email ''a@x.org'', blank_sub]
   \<and> map fst (duplicates (fst (processBatch early_clock mixed_inputs (new_DeduplicationService None))))
       = [with_email ''A@x.org'']
   \<and> mset (map Instance [with_email ''a@x.org'', blank_sub])
     + mset (map (\<lambda>d. Instance (fst d))
               (duplicates (fst (processBatch early_clock mixed_inputs (new_DeduplicationService None)))))
     + mset [NotSubscriber JNull, NotSubscriber (JStr ''a@x.org'')] = mset mixed_inputs
   \<and> length mixed_inputs = 5"
proof -
  let ?svc = "new_DeduplicationService None"
  have k: "generateKey (strategy ?svc) blank_sub = Inr []" by code_simp
  have f: "filter (throws (strategy ?svc)) mixed_inputs
             = [NotSubscriber JNull, NotSubscriber (JStr ''a@x.org'')]" by code_simp
  have u: "unique (fst (processBatch early_clock mixed_inputs ?svc))
             = [with_email ''a@x.org'', blank_sub]" by code_simp
  have d: "map fst (duplicates (fst (processBatch early_clock mixed_inputs ?svc)))
             = [with_email ''A@x.org'']" by code_simp
  have l: "length mixed_inputs = 5" by code_simp
  have bl: "blank []" by code_simp
  from processBatch_records_what_throws[of 3 JNull ?svc blank_sub "[]" early_clock mixed_inputs] k bl
  have n: "\<not> isl (fst (checkDuplicate 3 (Instance blank_sub) ?svc))"
    and q: "fst (checkDuplicate 3 (Instance blank_sub) ?svc) = Inr (new_DuplicateResult 3 False None 0)"
    and e: "map fst (batch_errors (fst (processBatch early_clock mixed_inputs ?svc)))
              = filter (throws (strategy ?svc)) mixed_inputs"
    and m: "mset (map Instance (unique (fst (processBatch early_clock mixed_inputs ?svc))))
            + mset (map (\<lambda>d. Instance (fst d)) (duplicates (fst (processBatch early_clock mixed_inputs ?svc))))
            + mset (map fst (batch_errors (fst (processBatch early_clock mixed_inputs ?svc))))
            = mset mixed_inputs"
    by blast+
  note e' = e[unfolded f]
  note m' = m[unfolded u e']
  from k bl n q e' u d m' l show ?thesis by blast
qed

section \<open>Deduplication: running twice\<close>

lemma map_of_map_prod:
  "map_of (map (map_prod id f) al) k = map_option f (map_of al k)"
  by (induction al) auto

lemma update_map_prod:
  "map (map_prod id f) (AList.update k v al) = AList.update k (f v) (map (map_prod id f) al)"
  by (induction al) auto

lemma erase_idem:
  "map_prod id erase_seen (map_prod id erase_seen p) = map_prod id erase_seen p"
  "map_prod id (map erase_entry) (map_prod id (map erase_entry) q) = map_prod id (map erase_entry) q"
  by (cases p, simp add: erase_seen_def) (cases q, simp add: erase_entry_def)

lemma erase_entry_simps:
  "erase_entry \<lparr> dup_subscriber = s, dup_timestamp = t, duplicateNumber = n \<rparr>
     = \<lparr> dup_subscriber = s, dup_timestamp = 0, duplicateNumber = n \<rparr>"
  "erase_entry (erase_entry e) = erase_entry e"
  by (simp_all add: erase_entry_def)

lemma service_without_time_idem:
  "service_without_time (service_without_time svc) = service_without_time svc"
  by (simp add: service_without_time_def comp_def erase_idem)

lemma service_without_time_fields:
  "strategy (service_without_time svc) = strategy svc"
  "dedup_statistics (service_without_time svc) = dedup_statistics svc"
  "seenRecords (service_without_time svc) = map (map_prod id erase_seen) (seenRecords svc)"
  "duplicateGroups (service_without_time svc) = map (map_prod id (map erase_entry)) (duplicateGroups svc)"
  by (simp_all add: service_without_time_def)

lemma checkDuplicate_without_time:
  "map_sum id erase_result (fst (checkDuplicate now x svc))
     = map_sum id erase_result (fst (checkDuplicate 0 x (service_without_time svc)))
   \<and> service_without_time (snd (checkDuplicate now x svc))
     = service_without_time (snd (checkDuplicate 0 x (service_without_time svc)))"
proof (cases x)
  case (NotSubscriber v)
  then show ?thesis
    by (simp add: checkDuplicate.simps service_without_time_idem)
next
  case (Instance sub)
  show ?thesis
  proof (cases "generateKey (strategy svc) sub")
    case (Inl e)
    then show ?thesis using Instance
      by (simp add: checkDuplicate.simps service_without_time_def Let_def comp_def erase_idem)
  next
    case (Inr k)
    show ?thesis
    proof (cases "blank k")
      case True
      then show ?thesis using Instance Inr
        by (simp add: checkDuplicate.simps service_without_time_def Let_def comp_def
            erase_result_def new_DuplicateResult_def erase_idem)
    next
      case False
      show ?thesis
      proof (cases "map_of (seenRecords svc) k")
        case None
        then show ?thesis using Instance Inr False
          by (simp add: checkDuplicate.simps service_without_time_def Let_def comp_def
              erase_result_def new_DuplicateResult_def map_of_map_prod update_map_prod
              erase_seen_def erase_idem)
      next
        case (Some existing)
        show ?thesis
        proof (cases "map_of (duplicateGroups svc) k")
          case None
          then show ?thesis using Instance Inr False Some
            by (simp add: checkDuplicate.simps service_without_time_def Let_def comp_def
                erase_result_def new_DuplicateResult_def map_of_map_prod update_map_prod
                erase_seen_def erase_entry_def update_conv' erase_idem)
        next
          case (Some g)
          then show ?thesis using Instance Inr False \<open>map_of (seenRecords svc) k = Some existing\<close>
            by (simp add: checkDuplicate.simps service_without_time_def Let_def comp_def
                erase_result_def new_DuplicateResult_def map_of_map_prod update_map_prod
                erase_seen_def erase_entry_simps update_conv' erase_idem)
        qed
      qed
    qed
  qed
qed


lemma without_time_eq_iff:
  "without_time a = without_time b \<longleftrightarrow>
     unique a = unique b \<and> batch_errors a = batch_errors b \<and>
     map (map_prod id erase_result) (duplicates a) = map (map_prod id erase_result) (duplicates b)"
  by (cases a; cases b) (auto simp: without_time_def)

lemma checkDuplicate_same_but_time:
  assumes "service_without_time svc1 = service_without_time svc2"
  shows "map_sum id erase_result (fst (checkDuplicate t1 x svc1))
           = map_sum id erase_result (fst (checkDuplicate t2 x svc2))"
    and "service_without_time (snd (checkDuplicate t1 x svc1))
           = service_without_time (snd (checkDuplicate t2 x svc2))"
  using checkDuplicate_without_time[of t1 x svc1] checkDuplicate_without_time[of t2 x svc2] assms
  by simp_all

lemma loop_same_but_time:
  assumes "without_time res1 = without_time res2"
    and "service_without_time svc1 = service_without_time svc2"
  shows "without_time (fst (processBatch_loop clock1 i xs res1 svc1))
           = without_time (fst (processBatch_loop clock2 i xs res2 svc2))"
  using assms
proof (induction xs arbitrary: i res1 res2 svc1 svc2)
  case Nil
  then show ?case by simp
next
  case (Cons x xs)
  let ?c1 = "checkDuplicate (clock1 i) x svc1" and ?c2 = "checkDuplicate (clock2 i) x svc2"
  note st = checkDuplicate_same_but_time[OF Cons.prems(2), of "clock1 i" x "clock2 i"]
  note r = Cons.prems(1)[unfolded without_time_eq_iff]
  show ?case
  proof (cases "fst ?c1")
    case (Inl e)
    then have e2: "fst ?c2 = Inl e" using st(1) by (cases "fst ?c2") auto
    have "without_time (res1\<lparr>batch_errors := batch_errors res1 @ [(x, message e)]\<rparr>)
            = without_time (res2\<lparr>batch_errors := batch_errors res2 @ [(x, message e)]\<rparr>)"
      using r by (simp add: without_time_eq_iff)
    from Cons.IH[OF this st(2), of "Suc i"] show ?thesis
      using loop_step_error[where clock=clock1 and i=i and xs=xs and res=res1, OF Inl]
        loop_step_error[where clock=clock2 and i=i and xs=xs and res=res2, OF e2]
      by simp
  next
    case (Inr r1)
    then obtain r2 where r2: "fst ?c2 = Inr r2" "erase_result r1 = erase_result r2"
      using st(1) by (cases "fst ?c2") auto
    then have dup: "isDuplicate r1 = isDuplicate r2"
      by (metis DuplicateResult.select_convs(1) DuplicateResult.surjective
          DuplicateResult.update_convs(4) erase_result_def)
    have "throws (strategy svc1) x = isl (fst ?c1)"
      by (simp add: checkDuplicate_throws)
    with Inr obtain sub where x: "x = Instance sub"
      by (cases x) (auto simp: throws_simps)
    show ?thesis
    proof (cases "isDuplicate r1")
      case True
      have "without_time (res1\<lparr>duplicates := duplicates res1 @ [(sub, r1)]\<rparr>)
              = without_time (res2\<lparr>duplicates := duplicates res2 @ [(sub, r2)]\<rparr>)"
        using r r2(2) by (simp add: without_time_eq_iff)
      from Cons.IH[OF this st(2), of "Suc i"] show ?thesis
        using loop_step_duplicate[where clock=clock1 and i=i and xs=xs and res=res1,
                OF Inr[unfolded x] True]
          loop_step_duplicate[where clock=clock2 and i=i and xs=xs and res=res2,
                OF r2(1)[unfolded x] True[unfolded dup]] x
        by simp
    next
      case False
      have "without_time (res1\<lparr>unique := unique res1 @ [sub]\<rparr>)
              = without_time (res2\<lparr>unique := unique res2 @ [sub]\<rparr>)"
        using r by (simp add: without_time_eq_iff)
      from Cons.IH[OF this st(2), of "Suc i"] show ?thesis
        using loop_step_unique[where clock=clock1 and i=i and xs=xs and res=res1,
                OF Inr[unfolded x] False]
          loop_step_unique[where clock=clock2 and i=i and xs=xs and res=res2,
                OF r2(1)[unfolded x] False[unfolded dup]] x
        by simp
    qed
  qed
qed

text \<open>
  Claim C10, as stated, has two runs over the same input yield identical partitions.
  Every \<open>DuplicateResult\<close> carries the time of its creation, so two runs at different
  times differ in their \<open>duplicates\<close>.
\<close>

theorem rerun_differs_in_time_stamps:
  "map (timestamp \<circ> snd) (duplicates (fst (processBatch early_clock same_twice
                                             (reset (new_DeduplicationService None))))) = [1]
   \<and> map (timestamp \<circ> snd) (duplicates (fst (processBatch late_clock same_twice
                                             (reset (new_DeduplicationService None))))) = [1001]
   \<and> fst (processBatch early_clock same_twice (reset (new_DeduplicationService None)))
       \<noteq> fst (processBatch late_clock same_twice (reset (new_DeduplicationService None)))"
proof -
  have a: "map (timestamp \<circ> snd) (duplicates (fst (processBatch early_clock same_twice
             (reset (new_DeduplicationService None))))) = [1]" by code_simp
  have b: "map (timestamp \<circ> snd) (duplicates (fst (processBatch late_clock same_twice
             (reset (new_DeduplicationService None))))) = [1001]" by code_simp
  from a b show ?thesis by auto
qed

text \<open>
  Claim C10, amended. Two runs of \<open>processBatch\<close> over the same input in the same order,
  each on a freshly reset service with the same strategy, yield the same \<open>unique\<close>,
  \<open>duplicates\<close> and \<open>errors\<close> up to the \<open>timestamp\<close> of each \<open>DuplicateResult\<close>; with the
  same clock readings they yield identical results.
\<close>

theorem rerun_same_but_time:
  assumes "strategy svc1 = strategy svc2"
  shows "fst (processBatch clock xs (reset svc1)) = fst (processBatch clock xs (reset svc2))
       \<and> without_time (fst (processBatch clock1 xs (reset svc1)))
           = without_time (fst (processBatch clock2 xs (reset svc2)))"
proof -
  have r: "reset svc1 = reset svc2"
    using assms by (cases svc1; cases svc2) (simp add: reset_def)
  have p: "\<And>c s. fst (processBatch c xs s)
             = fst (processBatch_loop c 0 xs \<lparr> unique = [], duplicates = [], batch_errors = [] \<rparr> s)"
    by (simp add: processBatch_def split: prod.splits)
  show ?thesis
    unfolding p r using loop_same_but_time[OF refl refl] by simp
qed

text \<open>Witness: a service that has already processed the list is reset and processes it
  again, later.\<close>

theorem rerun_same_but_time_witness:
  "strategy (snd (processBatch early_clock same_twice (new_DeduplicationService None)))
     = strategy (new_DeduplicationService None)
   \<and> without_time (fst (processBatch early_clock same_twice
                          (reset (snd (processBatch early_clock same_twice (new_DeduplicationService None))))))
       = without_time (fst (processBatch late_clock same_twice (reset (new_DeduplicationService None))))
   \<and> map (originalRecord \<circ> snd)
         (duplicates (fst (processBatch late_clock same_twice (reset (new_DeduplicationService None)))))
       = [Some (with_email ''a@x.org'')]"
proof -
  let ?used = "snd (processBatch early_clock same_twice (new_DeduplicationService None))"
  have s: "strategy ?used = strategy (new_DeduplicationService None)" by code_simp
  have o: "map (originalRecord \<circ> snd)
             (duplicates (fst (processBatch late_clock same_twice (reset (new_DeduplicationService None)))))
           = [Some (with_email ''a@x.org'')]" by code_simp
  from rerun_same_but_time[OF s, of early_clock same_twice early_clock late_clock] s o
  show ?thesis by blast
qed

section \<open>Resumable sessions\<close>

lemma sortNewestFirst_mset: "mset (sortNewestFirst f xs) = mset xs"
  by (simp add: sortNewestFirst_def)

lemma sortNewestFirst_sorted:
  "sorted_wrt (\<lambda>a b. f b \<le> f a) (sortNewestFirst f xs)"
proof -
  have "sorted (map (\<lambda>x. - f x) (sort_key (\<lambda>x. - f x) xs))" by (rule sorted_sort_key)
  then show ?thesis by (simp add: sortNewestFirst_def sorted_map)
qed

lemma hd_insort_key:
  "hd (insort_key f x ys) = (if ys = [] then x else if f x \<le> f (hd ys) then x else hd ys)"
  by (cases ys) auto

lemma insort_key_not_Nil: "insort_key f x ys \<noteq> []"
  by (cases ys) auto

lemma latest_is_head:
  "latest cs = (case sortNewestFirst cp_timestamp cs of [] \<Rightarrow> None | c # older \<Rightarrow> Some c)"
proof (induction cs)
  case Nil
  then show ?case by (simp add: sortNewestFirst_def)
next
  case (Cons c cs)
  let ?s = "sort_key (\<lambda>x. - cp_timestamp x) cs"
  have h: "hd (insort_key (\<lambda>x. - cp_timestamp x) c ?s)
             = (if ?s = [] then c else if cp_timestamp (hd ?s) \<le> cp_timestamp c then c else hd ?s)"
    by (simp add: hd_insort_key)
  obtain y ys where i: "insort_key (\<lambda>x. - cp_timestamp x) c ?s = y # ys"
    using insort_key_not_Nil by (metis list.exhaust)
  from Cons.IH h i show ?case
    by (cases ?s) (auto simp: sortNewestFirst_def)
qed

lemma latest_in_set: "latest cs = Some c \<Longrightarrow> c \<in> set cs"
  by (induction cs arbitrary: c) (auto split: option.splits if_splits)

lemma readCheckpointFiles_in_files:
  "c \<in> set (readCheckpointFiles files) \<Longrightarrow> \<exists>f. (f, Json c) \<in> set files"
  by (induction files rule: readCheckpointFiles.induct) (auto split: if_splits file_content.splits)


lemma wf_file_lookup:
  assumes "distinct (map fst files)" "list_all (wf_file d) files" "c \<in> set (readCheckpointFiles files)"
  shows "map_of files (cp_id c @ ''.json'') = Some (Json c)" and "cp_sessionId c = d" and "d \<noteq> []"
proof -
  from assms(3) obtain f where f: "(f, Json c) \<in> set files"
    using readCheckpointFiles_in_files by blast
  with assms(2) have w: "wf_file d (f, Json c)" by (auto simp: list_all_iff)
  then show "cp_sessionId c = d" "d \<noteq> []" by simp_all
  from w have "f = cp_id c @ ''.json''" by simp
  with f assms(1) show "map_of files (cp_id c @ ''.json'') = Some (Json c)" by simp
qed

lemma isValid_resumable:
  "cp_sessionId c \<noteq> [] \<Longrightarrow> isValid c = resumable c"
  by (auto simp: isValid_def resumable_def split: option.splits)

lemma wf_storage_entry:
  assumes "wf_storage entries" "(d, Directory files) \<in> set entries"
  shows "map_of entries d = Some (Directory files)" "distinct (map fst files)"
    "list_all (wf_file d) files"
  using assms by (auto simp: wf_storage_def list_all_iff)

lemma loadLatestCheckpoint_wf:
  assumes "wf_storage entries" "(d, Directory files) \<in> set entries"
  shows "loadLatestCheckpoint entries d
           = (case latest (readCheckpointFiles files) of
                None \<Rightarrow> Inr None
              | Some c \<Rightarrow>
                  (case deserializeCheckpoint c of
                     Inl e \<Rightarrow> Inl (Error (''Failed to load checkpoint: '' @ message e))
                   | Inr c' \<Rightarrow> Inr (Some c')))"
proof -
  note e = wf_storage_entry[OF assms]
  show ?thesis
  proof (cases "latest (readCheckpointFiles files)")
    case None
    then show ?thesis
      using e(1) by (simp add: loadLatestCheckpoint_def listCheckpoints_def latest_is_head
          split: list.splits)
  next
    case (Some c)
    then have "map_of files (cp_id c @ ''.json'') = Some (Json c)"
      using wf_file_lookup(1)[OF e(2,3)] latest_in_set by blast
    with Some show ?thesis
      using e(1) by (simp add: loadLatestCheckpoint_def listCheckpoints_def latest_is_head
          split: list.splits)
  qed
qed

lemma collectResumable_wf:
  assumes "wf_storage entries" "set es \<subseteq> set entries"
  shows "collectResumable entries es = concat (map resumable_latest es)"
  using assms(2)
proof (induction es)
  case Nil
  then show ?case by simp
next
  case (Cons entry es)
  obtain d e where entry: "entry = (d, e)" by (cases entry)
  have ih: "collectResumable entries es = concat (map resumable_latest es)"
    using Cons by simp
  show ?case
  proof (cases e)
    case RegularFile
    with entry ih show ?thesis by simp
  next
    case (Directory files)
    then have m: "(d, Directory files) \<in> set entries" using Cons.prems entry by simp
    note l = loadLatestCheckpoint_wf[OF assms(1) m]
    note w = wf_storage_entry[OF assms(1) m]
    show ?thesis
    proof (cases "latest (readCheckpointFiles files)")
      case None
      with l entry Directory ih show ?thesis by simp
    next
      case (Some c)
      then have sid: "cp_sessionId c \<noteq> []"
        using wf_file_lookup(2,3)[OF w(2,3)] latest_in_set by blast
      show ?thesis
      proof (cases "cp_state c")
        case None
        then have "\<not> resumable c" by (simp add: resumable_def)
        with None Some l entry Directory ih show ?thesis
          by (simp add: deserializeCheckpoint_def)
      next
        case (Some st)
        with \<open>latest (readCheckpointFiles files) = Some c\<close> l entry Directory ih
          isValid_resumable[OF sid]
        show ?thesis
          by (simp add: deserializeCheckpoint_def getSummary_def)
      qed
    qed
  qed
qed


lemma resumable_latest_wf:
  assumes "wf_storage entries" "entry \<in> set entries"
  shows "map sum_sessionId (resumable_latest entry)
           = (if resumable_session entry then [fst entry] else [])"
    and "\<forall>s\<in>set (resumable_latest entry). sum_processed s < sum_total s \<and> sum_isValid s"
proof -
  obtain d e where entry: "entry = (d, e)" by (cases entry)
  show "map sum_sessionId (resumable_latest entry)
           = (if resumable_session entry then [fst entry] else [])"
  proof (cases e)
    case RegularFile
    with entry show ?thesis by (simp add: resumable_session_def)
  next
    case (Directory files)
    note w = wf_storage_entry[OF assms(1) assms(2)[unfolded entry Directory]]
    show ?thesis
    proof (cases "latest (readCheckpointFiles files)")
      case None
      with entry Directory show ?thesis by (simp add: resumable_session_def)
    next
      case (Some c)
      then have "cp_sessionId c = d"
        using wf_file_lookup(2)[OF w(2,3)] latest_in_set by blast
      with Some entry Directory show ?thesis
        by (auto simp: resumable_session_def getSummary_def resumable_def split: option.splits)
    qed
  qed
  show "\<forall>s\<in>set (resumable_latest entry). sum_processed s < sum_total s \<and> sum_isValid s"
  proof (cases e)
    case RegularFile
    with entry show ?thesis by simp
  next
    case (Directory files)
    note w = wf_storage_entry[OF assms(1) assms(2)[unfolded entry Directory]]
    show ?thesis
    proof (cases "latest (readCheckpointFiles files)")
      case None
      with entry Directory show ?thesis by simp
    next
      case (Some c)
      then have sid: "cp_sessionId c \<noteq> []"
        using wf_file_lookup(2,3)[OF w(2,3)] latest_in_set by blast
      show ?thesis
      proof (cases "cp_state c")
        case None
        then have "resumable_latest entry = []"
          using Some entry Directory by (simp add: resumable_def)
        then show ?thesis by simp
      next
        case st: (Some st)
        show ?thesis
        proof (cases "resumable c")
          case True
          then have "resumable_latest entry
                       = [\<lparr> sum_sessionId = cp_sessionId c, sum_id = cp_id c,
                             sum_timestamp = cp_timestamp c, sum_phase = cp_currentPhase st,
                             sum_progress = getResumePercentage st,
                             sum_processed = cp_processedRecords st, sum_total = cp_totalRecords st,
                             sum_isValid = isValid c, sum_csvFile = cp_csvFile c \<rparr>]"
            using Some entry Directory st by (simp add: getSummary_def)
          moreover have "isValid c" using True sid by (simp add: isValid_resumable)
          moreover have "cp_processedRecords st < cp_totalRecords st"
            using True st by (simp add: resumable_def)
          ultimately show ?thesis by simp
        next
          case False
          then have "resumable_latest entry = []"
            using Some entry Directory by simp
          then show ?thesis by simp
        qed
      qed
    qed
  qed
qed

lemma resumable_sessions_wf:
  assumes "wf_storage entries" "set es \<subseteq> set entries"
  shows "map sum_sessionId (concat (map resumable_latest es)) = map fst (filter resumable_session es)"
  using assms(2)
proof (induction es)
  case Nil
  then show ?case by simp
next
  case (Cons entry es)
  then have "entry \<in> set entries" by simp
  from resumable_latest_wf(1)[OF assms(1) this] Cons show ?case by simp
qed

text \<open>
  Claim C8. On a storage directory as \<open>saveCheckpoint\<close> fills it,
  \<open>findResumableSessions\<close> returns a list that is sorted newest first by time stamp and
  holds, once each, the summaries of the latest checkpoints of exactly those session
  directories whose latest checkpoint is resumable: fewer records processed than in
  total, and a status that is neither \<open>completed\<close> nor \<open>failed\<close>. The session ids returned
  are the names of those directories, and no summary returned violates the invariant.
\<close>

theorem findResumableSessions_exact:
  assumes "wf_storage entries"
  shows "\<exists>rs. findResumableSessions (Some entries) = Inr rs
           \<and> sorted_wrt (\<lambda>a b. sum_timestamp b \<le> sum_timestamp a) rs
           \<and> mset rs = mset (concat (map resumable_latest entries))
           \<and> mset (map sum_sessionId rs) = mset (map fst (filter resumable_session entries))
           \<and> (\<forall>s\<in>set rs. sum_processed s < sum_total s \<and> sum_isValid s)"
proof -
  let ?found = "concat (map resumable_latest entries)"
  let ?rs = "sortNewestFirst sum_timestamp ?found"
  have c: "collectResumable entries entries = ?found"
    using collectResumable_wf[OF assms] by simp
  have r: "findResumableSessions (Some entries) = Inr ?rs"
    by (simp add: findResumableSessions_def c)
  have m: "mset ?rs = mset ?found" by (rule sortNewestFirst_mset)
  have "mset (map sum_sessionId ?rs) = mset (map sum_sessionId ?found)"
    using m by (metis mset_map)
  then have ids: "mset (map sum_sessionId ?rs) = mset (map fst (filter resumable_session entries))"
    using resumable_sessions_wf[OF assms] by simp
  have "set ?rs = set ?found" using m by (metis set_mset_mset)
  then have v: "\<forall>s\<in>set ?rs. sum_processed s < sum_total s \<and> sum_isValid s"
    using resumable_latest_wf(2)[OF assms] by auto
  from r sortNewestFirst_sorted[of sum_timestamp ?found] m ids v show ?thesis by blast
qed

text \<open>Witness: three sessions. The one with 100 records checkpointed at 40 is returned,
  behind the paused one with the newer checkpoint; the completed one is not.\<close>

theorem findResumableSessions_exact_witness:
  "wf_storage sample_storage
   \<and> map sum_sessionId (projr (findResumableSessions (Some sample_storage))) = [''s3'', ''s1'']
   \<and> map sum_timestamp (projr (findResumableSessions (Some sample_storage))) = [4000, 2000]
   \<and> map sum_processed (projr (findResumableSessions (Some sample_storage))) = [5, 40]
   \<and> map fst (filter resumable_session sample_storage) = [''s1'', ''s3'']
   \<and> sorted_wrt (\<lambda>a b. sum_timestamp b \<le> sum_timestamp a)
        (projr (findResumableSessions (Some sample_storage)))
   \<and> mset (map sum_sessionId (projr (findResumableSessions (Some sample_storage))))
       = mset [''s1'', ''s3'']"
proof -
  let ?out = "projr (findResumableSessions (Some sample_storage))"
  have w: "wf_storage sample_storage" by code_simp
  have i: "map sum_sessionId ?out = [''s3'', ''s1'']" by code_simp
  have t: "map sum_timestamp ?out = [4000, 2000]" by code_simp
  have p: "map sum_processed ?out = [5, 40]" by code_simp
  have f: "map fst (filter resumable_session sample_storage) = [''s1'', ''s3'']" by code_simp
  from findResumableSessions_exact[OF w] obtain rs where
    rs: "findResumableSessions (Some sample_storage) = Inr rs"
    and s: "sorted_wrt (\<lambda>a b. sum_timestamp b \<le> sum_timestamp a) rs"
    and m: "mset (map sum_sessionId rs) = mset (map fst (filter resumable_session sample_storage))"
    by blast
  have o: "?out = rs" using rs by simp
  from w i t p f s[folded o] m[folded o, unfolded f] show ?thesis by blast
qed

end
